theory Spec2Isabelle
  imports Main "HOL-Library.Sublist"
begin

section \<open>Strings\<close>

text \<open>
  JavaScript strings are modelled as \<^typ>\<open>string\<close>: one \<^typ>\<open>char\<close> per code unit, for
  text whose code units are below 256. \<open>s.startsWith(p)\<close> is \<^term>\<open>prefix p s\<close>, and a
  \<open>replace\<close> with a literal pattern anchored by \<open>^\<close> or \<open>$\<close> (no flags) removes that literal
  at the start or at the very end of the string when it is there.
\<close>

definition nl :: string where
  "nl = [CHR 0x0A]"

definition fence :: string where
  "fence = ''```''"

definition replace_start :: "string \<Rightarrow> string \<Rightarrow> string" where
  "replace_start pat s = (if prefix pat s then drop (length pat) s else s)"

definition replace_end :: "string \<Rightarrow> string \<Rightarrow> string" where
  "replace_end pat s = (if suffix pat s then take (length s - length pat) s else s)"

definition is_digit :: "char \<Rightarrow> bool" where
  "is_digit c = (c \<in> set ''0123456789'')"

definition is_line_terminator :: "char \<Rightarrow> bool" where
  "is_line_terminator c = (c = CHR 0x0A \<or> c = CHR 0x0D)"

text \<open>A string or \<open>null\<close> used as a condition: \<open>null\<close> and the empty string are falsy.\<close>

fun truthy :: "string option \<Rightarrow> bool" where
  "truthy None = False"
| "truthy (Some v) = (v \<noteq> [])"

section \<open>Secrets from the process environment (src/secrets/env.ts)\<close>

text \<open>
  \<open>process.env\<close> is an object with string values: an association list of its keys in
  enumeration order, read with \<^const>\<open>map_of\<close>. A \<open>Record<string, string>\<close> that is only
  written by key and spread into another object is a map.
\<close>

type_synonym process_env = "(string \<times> string) list"

definition getAllSecrets_step ::
  "process_env \<Rightarrow> string \<Rightarrow> (string \<rightharpoonup> string) \<Rightarrow> (string \<rightharpoonup> string)" where
  "getAllSecrets_step env key secrets =
     (if prefix ''TEST_'' key
      then (if truthy (map_of env key) then secrets(key \<mapsto> the (map_of env key)) else secrets)
      else secrets)"

definition getAllSecrets :: "process_env \<Rightarrow> (string \<rightharpoonup> string)" where
  "getAllSecrets env = fold (getAllSecrets_step env) (map fst env) Map.empty"

definition getSecretsForPlaywright :: "process_env \<Rightarrow> (string \<rightharpoonup> string)" where
  "getSecretsForPlaywright env =
     (let secrets = getAllSecrets env
      in if truthy (map_of env ''BASE_URL'')
         then secrets(''BASE_URL'' \<mapsto> the (map_of env ''BASE_URL''))
         else secrets)"

text \<open>The entries of an environment under the \<open>TEST_\<close> prefix, in order.\<close>

fun test_entries :: "process_env \<Rightarrow> process_env" where
  "test_entries [] = []"
| "test_entries ((k, v) # kvs) =
     (if prefix ''TEST_'' k then (k, v) # test_entries kvs else test_entries kvs)"

section \<open>The child environment of the engine (runner.ts, executeTests)\<close>

text \<open>
  \<open>{ ...process.env, ...secrets, NODE_PATH: path.join(__dirname, '../node_modules') }\<close>:
  a later spread or property wins over an earlier one. The value of \<open>NODE_PATH\<close> depends
  on where the runner is installed and is a parameter.
\<close>

definition child_env ::
  "process_env \<Rightarrow> (string \<rightharpoonup> string) \<Rightarrow> string \<Rightarrow> (string \<rightharpoonup> string)" where
  "child_env penv secrets node_path = (map_of penv ++ secrets)(''NODE_PATH'' \<mapsto> node_path)"

section \<open>Cleaning the source text (runner.ts, writeTestFiles)\<close>

definition clean_code :: "string \<Rightarrow> string" where
  "clean_code code =
     (if prefix fence code
      then replace_end (nl @ fence)
             (replace_start (fence @ nl)
               (replace_start (fence @ ''typescript'' @ nl) code))
      else code)"

section \<open>Paths (Node's posix \<open>path.join\<close> and \<open>path.dirname\<close>)\<close>

text \<open>
  \<open>path.join\<close> joins its non-empty arguments with a slash and normalises the result:
  empty and \<open>.\<close> segments go away, a \<open>..\<close> segment removes the segment before it (and is
  dropped at the root of an absolute path), a trailing slash is kept.
\<close>

fun split_slash :: "string \<Rightarrow> string list" where
  "split_slash [] = [[]]"
| "split_slash (c # cs) =
     (if c = CHR ''/'' then [] # split_slash cs
      else (case split_slash cs of [] \<Rightarrow> [[c]] | seg # segs \<Rightarrow> (c # seg) # segs))"

fun join_slash :: "string list \<Rightarrow> string" where
  "join_slash [] = []"
| "join_slash [seg] = seg"
| "join_slash (seg # segs) = seg @ ''/'' @ join_slash segs"

text \<open>The segments kept so far are held in reverse, the last one first.\<close>

fun normalizeString :: "bool \<Rightarrow> string list \<Rightarrow> string list \<Rightarrow> string list" where
  "normalizeString allowAboveRoot res [] = rev res"
| "normalizeString allowAboveRoot res (seg # segs) =
     (if seg = [] \<or> seg = ''.'' then normalizeString allowAboveRoot res segs
      else if seg = ''..'' then
        (case res of
           [] \<Rightarrow> normalizeString allowAboveRoot (if allowAboveRoot then [''..''] else []) segs
         | r # rs \<Rightarrow>
             if r = ''..''
             then normalizeString allowAboveRoot (if allowAboveRoot then ''..'' # res else res) segs
             else normalizeString allowAboveRoot rs segs)
      else normalizeString allowAboveRoot (seg # res) segs)"

definition path_normalize :: "string \<Rightarrow> string" where
  "path_normalize p =
     (if p = [] then ''.''
      else
        (let isAbsolute = (hd p = CHR ''/'');
             trailingSeparator = (last p = CHR ''/'');
             body = join_slash (normalizeString (\<not> isAbsolute) [] (split_slash p))
         in if body = [] then (if isAbsolute then ''/'' else if trailingSeparator then ''./'' else ''.'')
            else (if isAbsolute then ''/'' else []) @ body @ (if trailingSeparator then ''/'' else [])))"

definition path_join :: "string \<Rightarrow> string \<Rightarrow> string" where
  "path_join a b =
     (if a = [] \<and> b = [] then ''.''
      else if a = [] then path_normalize b
      else if b = [] then path_normalize a
      else path_normalize (a @ ''/'' @ b))"

text \<open>
  \<open>path.dirname\<close> ignores trailing slashes, then cuts at the last slash that is not the
  first character; with no such slash the result is \<open>/\<close> or \<open>.\<close>.
\<close>

definition path_dirname :: "string \<Rightarrow> string" where
  "path_dirname p =
     (case p of
        [] \<Rightarrow> ''.''
      | c # cs \<Rightarrow>
          (let hasRoot = (c = CHR ''/'');
               r = dropWhile (\<lambda>x. x \<noteq> CHR ''/'') (dropWhile (\<lambda>x. x = CHR ''/'') (rev cs))
           in case r of
                [] \<Rightarrow> (if hasRoot then ''/'' else ''.'')
              | _ # front \<Rightarrow> (if hasRoot \<and> front = [] then ''//'' else c # rev front)))"

section \<open>The file system (Node's \<open>fs\<close>)\<close>

text \<open>
  The disk is a map from absolute paths to nodes. Of the ways the calls can fail, the
  model has those that depend on the paths alone: a path with a null byte or with a
  segment of more than 255 bytes, a directory where a file is written, a file where a
  directory is needed, a missing parent directory. A disk that is full or refuses
  permission is not modelled.
\<close>

datatype node = Dir | File string

type_synonym filesystem = "string \<rightharpoonup> node"

datatype error =
    Error string
  | EISDIR string
  | ENOENT string
  | ENOTDIR string
  | EEXIST string
  | ENAMETOOLONG string
  | ERR_INVALID_ARG_VALUE string

datatype 'a outcome = Returned 'a | Thrown error

definition existsSync :: "filesystem \<Rightarrow> string \<Rightarrow> bool" where
  "existsSync disk p = (disk p \<noteq> None)"

fun is_file :: "node option \<Rightarrow> bool" where
  "is_file (Some (File _)) = True"
| "is_file _ = False"

text \<open>The directories \<open>mkdir -p\<close> walks through: every proper ancestor below the root, then the path.\<close>

fun dir_chain_from :: "string \<Rightarrow> string \<Rightarrow> string list" where
  "dir_chain_from seen [] = [rev seen]"
| "dir_chain_from seen (c # cs) =
     (if c = CHR ''/'' \<and> seen \<noteq> []
      then rev seen # dir_chain_from (c # seen) cs
      else dir_chain_from (c # seen) cs)"

definition dir_chain :: "string \<Rightarrow> string list" where
  "dir_chain p = dir_chain_from [] p"

fun make_dirs :: "string list \<Rightarrow> filesystem \<Rightarrow> filesystem" where
  "make_dirs [] disk = disk"
| "make_dirs (d # ds) disk = make_dirs ds (disk(d \<mapsto> Dir))"

text \<open>A path that the calls refuse before they look at the disk.\<close>

definition has_null_byte :: "string \<Rightarrow> bool" where
  "has_null_byte p = (CHR 0x00 \<in> set p)"

definition has_long_segment :: "string \<Rightarrow> bool" where
  "has_long_segment p = list_ex (\<lambda>seg. 255 < length seg) (split_slash p)"

text \<open>A path without its trailing slashes.\<close>

definition strip_trailing_slashes :: "string \<Rightarrow> string" where
  "strip_trailing_slashes p = rev (dropWhile (\<lambda>c. c = CHR ''/'') (rev p))"

text \<open>
  \<open>fs.mkdirSync(p, { recursive: true })\<close>: every missing directory on the way is made; a
  file on the way, or at the path itself, is an error.
\<close>

definition mkdirSync :: "filesystem \<Rightarrow> string \<Rightarrow> error + filesystem" where
  "mkdirSync disk p =
     (if has_null_byte p then Inl (ERR_INVALID_ARG_VALUE p)
      else if has_long_segment p then Inl (ENAMETOOLONG p)
      else if is_file (disk p) then Inl (EEXIST p)
      else if list_ex (\<lambda>d. is_file (disk d)) (dir_chain p) then Inl (ENOTDIR p)
      else Inr (make_dirs (dir_chain p) disk))"

text \<open>
  \<open>fs.writeFileSync(p, data, 'utf-8')\<close>: creates or overwrites the file. Where the parent
  is not a directory, the error tells a file on the way from a missing directory.
\<close>

definition writeFileSync :: "filesystem \<Rightarrow> string \<Rightarrow> string \<Rightarrow> error + filesystem" where
  "writeFileSync disk p data =
     (if has_null_byte p then Inl (ERR_INVALID_ARG_VALUE p)
      else if has_long_segment p then Inl (ENAMETOOLONG p)
      else if disk (path_dirname p) \<noteq> Some Dir then
        (if list_ex (\<lambda>d. is_file (disk d)) (dir_chain (path_dirname p))
         then Inl (ENOTDIR p) else Inl (ENOENT p))
      else if suffix ''/'' p \<and> is_file (disk (strip_trailing_slashes p)) then Inl (ENOTDIR p)
      else if disk p = Some Dir \<or> suffix ''/'' p then Inl (EISDIR p)
      else Inr (disk(p \<mapsto> File data)))"

text \<open>\<open>fs.rmSync(p, { recursive: true, force: true })\<close>: the path and everything below it.\<close>

definition rmSync :: "filesystem \<Rightarrow> string \<Rightarrow> filesystem" where
  "rmSync disk p = (\<lambda>q. if q = p \<or> prefix (p @ ''/'') q then None else disk q)"

section \<open>Data (types.ts)\<close>

text \<open>
  Of an \<open>ExportedTest\<close> the runner reads \<open>id\<close>, \<open>title\<close>, \<open>playwright_code\<close> (a string or
  \<open>null\<close>) and \<open>file_path\<close>; of the \<open>ExportedTests\<close> envelope it reads the organisation, the
  site and the tests. Fields with a name that several interfaces share carry a prefix here.
\<close>

record ExportedTest =
  test_id :: string
  title :: string
  playwright_code :: "string option"
  file_path :: string

record ExportedTests =
  et_site_id :: string
  et_organization_id :: string
  tests :: "ExportedTest list"

datatype pw_status = Passed | Failed | TimedOut | Skipped

record PlaywrightJsonError =
  message :: string

record PlaywrightJsonResult =
  r_status :: pw_status
  duration :: int
  r_error :: "PlaywrightJsonError option"

record PlaywrightJsonTest =
  pt_title :: string
  results :: "PlaywrightJsonResult list"

record PlaywrightJsonSpec =
  spec_title :: string
  spec_tests :: "PlaywrightJsonTest list"

record PlaywrightJsonSuite =
  suite_title :: string
  suite_file :: string
  specs :: "PlaywrightJsonSpec list"

record PlaywrightJsonReport =
  suites :: "PlaywrightJsonSuite list"

datatype run_status = StatusPassed | StatusFailed

record TestResultSubmission =
  test_card_id :: string
  passed :: bool
  duration_ms :: int
  error_message :: "string option"
  status :: run_status

record RunnerResultsSubmission =
  organization_id :: string
  site_id :: string
  started_at :: string
  finished_at :: string
  submission_status :: run_status
  submission_results :: "TestResultSubmission list"

record EirTestsConfig =
  apiUrl :: string
  apiKey :: string
  siteId :: string

section \<open>The runner and its world (runner.ts)\<close>

text \<open>What the runner prints, one constructor for each message that tells an outcome.\<close>

datatype log_event =
    LogSkipping string
  | LogWritten string
  | LogWroteCount nat
  | LogNoTestsWithCode
  | LogCleaningUp
  | LogError error
  | LogReporting
  | LogNoResultsFile
  | LogNoCardId string string
  | LogNoResultsToReport
  | LogCollected nat nat nat
  | LogResultsReported
  | LogReportFailed
  | LogAllPassed
  | LogSomeFailed int

text \<open>
  The fields of a \<open>TestRunner\<close>, and beside them the part of the world that its methods
  read and write: the disk, the console, the file \<open>test-results.json\<close> of the working
  directory, and the submissions that were posted.
\<close>

datatype results_file = NoResultsFile | Unparsable | Parsed PlaywrightJsonReport

record runner =
  config :: EirTestsConfig
  tempDir :: string
  testFileToCardIdMap :: "string \<rightharpoonup> string"
  exportedTests :: "ExportedTests option"
  disk :: filesystem
  console :: "log_event list"
  results_json :: results_file
  posted :: "RunnerResultsSubmission list"

definition log :: "log_event \<Rightarrow> runner \<Rightarrow> runner" where
  "log e s = s\<lparr>console := console s @ [e]\<rparr>"

text \<open>The decimal digits of \<open>Date.now()\<close>, as a template literal prints them.\<close>

fun decimal :: "nat \<Rightarrow> string" where
  "decimal n =
     (if n < 10 then [''0123456789'' ! n]
      else decimal (n div 10) @ [''0123456789'' ! (n mod 10)])"

declare decimal.simps [simp del]

definition new_TestRunner :: "EirTestsConfig \<Rightarrow> nat \<Rightarrow> filesystem \<Rightarrow> runner" where
  "new_TestRunner cfg now d =
     \<lparr>config = cfg, tempDir = ''/tmp/eirtests-'' @ decimal now,
      testFileToCardIdMap = Map.empty, exportedTests = None,
      disk = d, console = [], results_json = NoResultsFile, posted = []\<rparr>"

definition validateConfig :: "runner \<Rightarrow> unit outcome" where
  "validateConfig s =
     (if apiKey (config s) = [] then Thrown (Error ''EIRTESTS_API_KEY is required'')
      else if siteId (config s) = [] then Thrown (Error ''EIRTESTS_SITE_ID is required'')
      else Returned ())"

definition createTempDirectory :: "runner \<Rightarrow> unit outcome \<times> runner" where
  "createTempDirectory s =
     (if \<not> existsSync (disk s) (tempDir s)
      then (case mkdirSync (disk s) (tempDir s) of
              Inl e \<Rightarrow> (Thrown e, s)
            | Inr d \<Rightarrow> (Returned (), s\<lparr>disk := d\<rparr>))
      else (Returned (), s))"

subsection \<open>Materialization\<close>

text \<open>The body of the loop of \<open>writeTestFiles\<close> for a test that has code.\<close>

definition writeTestFile :: "runner \<Rightarrow> ExportedTest \<Rightarrow> unit outcome \<times> runner" where
  "writeTestFile s test =
     (let fullPath = path_join (tempDir s) (file_path test);
          dir = path_dirname fullPath
      in case (if \<not> existsSync (disk s) dir then mkdirSync (disk s) dir else Inr (disk s)) of
           Inl e \<Rightarrow> (Thrown e, s)
         | Inr d \<Rightarrow>
             (case writeFileSync d fullPath (clean_code (the (playwright_code test))) of
                Inl e \<Rightarrow> (Thrown e, s\<lparr>disk := d\<rparr>)
              | Inr d' \<Rightarrow>
                  (Returned (),
                   (log (LogWritten (file_path test)) (s\<lparr>disk := d'\<rparr>))
                     \<lparr>testFileToCardIdMap := (testFileToCardIdMap s)(fullPath \<mapsto> test_id test)\<rparr>)))"

fun writeTestFiles_loop :: "runner \<Rightarrow> ExportedTest list \<Rightarrow> nat \<Rightarrow> nat outcome \<times> runner" where
  "writeTestFiles_loop s [] written = (Returned written, s)"
| "writeTestFiles_loop s (test # rest) written =
     (if \<not> truthy (playwright_code test)
      then writeTestFiles_loop (log (LogSkipping (title test)) s) rest written
      else (case writeTestFile s test of
              (Thrown e, s') \<Rightarrow> (Thrown e, s')
            | (Returned _, s') \<Rightarrow> writeTestFiles_loop s' rest (written + 1)))"

definition writeTestFiles :: "runner \<Rightarrow> ExportedTest list \<Rightarrow> nat outcome \<times> runner" where
  "writeTestFiles s ts = writeTestFiles_loop s ts 0"

subsection \<open>Execution\<close>

text \<open>
  The engine is outside the program: given the command's directory, the child environment
  and the disk, it ends with or without an error (whose \<open>status\<close> may be absent), and
  leaves a disk and a results file behind.
\<close>

datatype exec_result = ExecOk | ExecFailed "int option"

record engine_outcome =
  exec :: exec_result
  disk_after :: filesystem
  results_after :: results_file

type_synonym engine = "string \<Rightarrow> (string \<rightharpoonup> string) \<Rightarrow> filesystem \<Rightarrow> engine_outcome"

text \<open>\<open>error.status || 1\<close>\<close>

fun status_or_1 :: "int option \<Rightarrow> int" where
  "status_or_1 None = 1"
| "status_or_1 (Some n) = (if n = 0 then 1 else n)"

definition executeTests ::
  "engine \<Rightarrow> process_env \<Rightarrow> string \<Rightarrow> runner \<Rightarrow> (string \<rightharpoonup> string) \<Rightarrow> int \<times> runner" where
  "executeTests eng penv node_path s secrets =
     (let env = child_env penv secrets node_path;
          out = eng (tempDir s) env (disk s);
          s' = s\<lparr>disk := disk_after out, results_json := results_after out\<rparr>
      in case exec out of
           ExecOk \<Rightarrow> (0, s')
         | ExecFailed st \<Rightarrow> (status_or_1 st, s'))"

subsection \<open>Cleanup\<close>

definition cleanup :: "runner \<Rightarrow> runner" where
  "cleanup s =
     (if existsSync (disk s) (tempDir s)
      then (log LogCleaningUp s)\<lparr>disk := rmSync (disk s) (tempDir s)\<rparr>
      else s)"

subsection \<open>Correlation and reporting\<close>

text \<open>
  \<open>testFilePath.match(/eirtests-\d+\/(.+)$/)\<close>: the leftmost position where the text
  \<open>eirtests-\<close>, one or more digits and a slash are followed by one or more characters up
  to the end of the string, none of them a line terminator. The result is the group, the
  text after the slash. At one position the match is unique: the digits are the whole run
  of digits, since the character after them has to be the slash.
\<close>

definition match_here :: "string \<Rightarrow> string option" where
  "match_here s =
     (if prefix ''eirtests-'' s
      then (let t = drop 9 s; ds = takeWhile is_digit t
            in case dropWhile is_digit t of
                 [] \<Rightarrow> None
               | c # rel \<Rightarrow>
                   if ds \<noteq> [] \<and> c = CHR ''/'' \<and> rel \<noteq> [] \<and> \<not> list_ex is_line_terminator rel
                   then Some rel else None)
      else None)"

fun tempDirMatch :: "string \<Rightarrow> string option" where
  "tempDirMatch [] = None"
| "tempDirMatch (c # cs) =
     (case match_here (c # cs) of Some rel \<Rightarrow> Some rel | None \<Rightarrow> tempDirMatch cs)"

definition testFilePath :: "runner \<Rightarrow> string \<Rightarrow> string" where
  "testFilePath s file =
     (case tempDirMatch file of
        Some relativePath \<Rightarrow> path_join (tempDir s) relativePath
      | None \<Rightarrow> file)"

text \<open>The card id of a suite; \<open>None\<close> where the loop takes its \<open>continue\<close>.\<close>

definition testCardId :: "runner \<Rightarrow> string \<Rightarrow> string option" where
  "testCardId s file =
     (let found = testFileToCardIdMap s (testFilePath s file)
      in if truthy found then found else None)"

text \<open>
  The body of the loop over the specs of a suite: the record pushed for a spec, or \<open>None\<close>
  where the loop continues without one. An absent \<open>tests\<close> or \<open>results\<close> array is skipped
  by the source as an empty one is.
\<close>

definition spec_result :: "string \<Rightarrow> PlaywrightJsonSpec \<Rightarrow> TestResultSubmission option" where
  "spec_result cardId spec =
     (case spec_tests spec of
        [] \<Rightarrow> None
      | test # _ \<Rightarrow>
          if results test = [] then None
          else (let latestResult = last (results test);
                    passed = (r_status latestResult = Passed);
                    errorMessage = map_option message (r_error latestResult)
                in Some \<lparr>test_card_id = cardId, passed = passed,
                         duration_ms = duration latestResult,
                         error_message = errorMessage,
                         status = (if passed then StatusPassed else StatusFailed)\<rparr>))"

fun specs_loop ::
  "string \<Rightarrow> PlaywrightJsonSpec list \<Rightarrow> TestResultSubmission list \<Rightarrow> TestResultSubmission list" where
  "specs_loop cardId [] rs = rs"
| "specs_loop cardId (spec # rest) rs =
     (case spec_result cardId spec of
        None \<Rightarrow> specs_loop cardId rest rs
      | Some r \<Rightarrow> specs_loop cardId rest (rs @ [r]))"

text \<open>The loop over the suites, with the results collected and the runner (for its console).\<close>

fun suites_loop ::
  "PlaywrightJsonSuite list \<Rightarrow> TestResultSubmission list \<times> runner \<Rightarrow>
   TestResultSubmission list \<times> runner" where
  "suites_loop [] (rs, s) = (rs, s)"
| "suites_loop (suite # rest) (rs, s) =
     (case testCardId s (suite_file suite) of
        None \<Rightarrow>
          suites_loop rest
            (rs, log (LogNoCardId (suite_file suite) (testFilePath s (suite_file suite))) s)
      | Some cardId \<Rightarrow> suites_loop rest (specs_loop cardId (specs suite) rs, s))"

text \<open>
  The POST of the submission is outside the program: the request fails, or the response is
  not \<open>ok\<close>, or it is \<open>ok\<close> with a body that parses or does not.
\<close>

datatype http_outcome = NetworkError | NotOk | OkBody | OkBadBody

type_synonym poster = "RunnerResultsSubmission \<Rightarrow> http_outcome"

definition reportResults :: "poster \<Rightarrow> string \<Rightarrow> string \<Rightarrow> int \<Rightarrow> runner \<Rightarrow> runner" where
  "reportResults post startTime finishTime exitCode s =
     (case exportedTests s of
        None \<Rightarrow> s
      | Some exported \<Rightarrow>
          (let s1 = log LogReporting s
           in case results_json s1 of
                NoResultsFile \<Rightarrow> log LogNoResultsFile s1
              | Unparsable \<Rightarrow> log LogReportFailed s1
              | Parsed playwrightResults \<Rightarrow>
                  (case suites_loop (suites playwrightResults) ([], s1) of
                     (rs, s2) \<Rightarrow>
                       if rs = [] then log LogNoResultsToReport s2
                       else
                         (let s3 = log (LogCollected (length rs) (length (filter passed rs))
                                         (length (filter (\<lambda>r. \<not> passed r) rs))) s2;
                              submission =
                                \<lparr>organization_id = et_organization_id exported,
                                 site_id = et_site_id exported,
                                 started_at = startTime, finished_at = finishTime,
                                 submission_status =
                                   (if exitCode = 0 then StatusPassed else StatusFailed),
                                 submission_results = rs\<rparr>;
                              s4 = s3\<lparr>posted := posted s3 @ [submission]\<rparr>
                          in case post submission of
                               OkBody \<Rightarrow> log LogResultsReported s4
                             | NetworkError \<Rightarrow> log LogReportFailed s4
                             | NotOk \<Rightarrow> log LogReportFailed s4
                             | OkBadBody \<Rightarrow> log LogReportFailed s4))))"

subsection \<open>The run\<close>

text \<open>
  The body of the \<open>try\<close> of \<open>run\<close>. The outcome of \<open>client.getTests\<close> is given: it throws or
  it returns the exported tests.
\<close>

definition run_try ::
  "(error + ExportedTests) \<Rightarrow> process_env \<Rightarrow> string \<Rightarrow> engine \<Rightarrow> poster \<Rightarrow>
   string \<Rightarrow> string \<Rightarrow> runner \<Rightarrow> int outcome \<times> runner" where
  "run_try fetched penv node_path eng post startTime finishTime s =
     (case validateConfig s of
        Thrown e \<Rightarrow> (Thrown e, s)
      | Returned _ \<Rightarrow>
          (case fetched of
             Inl e \<Rightarrow> (Thrown e, s)
           | Inr exported \<Rightarrow>
               (case createTempDirectory (s\<lparr>exportedTests := Some exported\<rparr>) of
                  (Thrown e, s2) \<Rightarrow> (Thrown e, s2)
                | (Returned _, s2) \<Rightarrow>
                    (case writeTestFiles s2 (tests exported) of
                       (Thrown e, s3) \<Rightarrow> (Thrown e, s3)
                     | (Returned testsWritten, s3) \<Rightarrow>
                         (let s4 = log (LogWroteCount testsWritten) s3
                          in if testsWritten = 0
                             then (Returned 0, cleanup (log LogNoTestsWithCode s4))
                             else
                               (let secrets = getSecretsForPlaywright penv
                                in case executeTests eng penv node_path s4 secrets of
                                     (exitCode, s5) \<Rightarrow>
                                       (let s6 = reportResults post startTime finishTime exitCode s5;
                                            s7 = cleanup s6
                                        in (Returned exitCode,
                                            log (if exitCode = 0 then LogAllPassed
                                                 else LogSomeFailed exitCode) s7))))))))"

definition run ::
  "(error + ExportedTests) \<Rightarrow> process_env \<Rightarrow> string \<Rightarrow> engine \<Rightarrow> poster \<Rightarrow>
   string \<Rightarrow> string \<Rightarrow> runner \<Rightarrow> int \<times> runner" where
  "run fetched penv node_path eng post startTime finishTime s =
     (case run_try fetched penv node_path eng post startTime finishTime s of
        (Returned exitCode, s') \<Rightarrow> (exitCode, s')
      | (Thrown e, s') \<Rightarrow> (1, cleanup (log (LogError e) s')))"

section \<open>Vocabulary of the specification and sample inputs\<close>

text \<open>The attempts of a spec are the results of its first test entry.\<close>

definition attempts :: "PlaywrightJsonSpec \<Rightarrow> PlaywrightJsonResult list" where
  "attempts spec = (case spec_tests spec of [] \<Rightarrow> [] | test # _ \<Rightarrow> results test)"

definition ex_penv :: process_env where
  "ex_penv = [(''TEST_USER'', ''inherited''), (''HOME'', ''/root'')]"

definition ex_secrets :: "string \<rightharpoonup> string" where
  "ex_secrets = [''TEST_USER'' \<mapsto> ''secret'']"

definition ex_node_path :: string where
  "ex_node_path = ''/opt/runner/node_modules''"

definition ex_env_a :: process_env where
  "ex_env_a = [(''TEST_USER'', ''u''), (''BASE_URL'', ''http://a''), (''HOME'', ''/root'')]"

definition ex_env_b :: process_env where
  "ex_env_b = [(''TEST_USER'', ''u''), (''BASE_URL'', ''http://b''), (''HOME'', ''/home/ci'')]"

definition ex_env_c :: process_env where
  "ex_env_c = [(''HOME'', ''/home/ci''), (''TEST_USER'', ''u''), (''BASE_URL'', ''http://a'')]"

definition ex_body :: string where
  "ex_body = ''expect(1).toBe(1);''"

definition ex_spec_passed_with_error :: PlaywrightJsonSpec where
  "ex_spec_passed_with_error =
     \<lparr>spec_title = ''login'', spec_tests =
        [\<lparr>pt_title = ''login'', results =
           [\<lparr>r_status = Passed, duration = 5, r_error = Some \<lparr>message = ''flaky''\<rparr>\<rparr>]\<rparr>]\<rparr>"

definition ex_spec_retry :: PlaywrightJsonSpec where
  "ex_spec_retry =
     \<lparr>spec_title = ''login'', spec_tests =
        [\<lparr>pt_title = ''login'', results =
           [\<lparr>r_status = Failed, duration = 7, r_error = Some \<lparr>message = ''timeout''\<rparr>\<rparr>,
            \<lparr>r_status = Passed, duration = 9, r_error = None\<rparr>]\<rparr>]\<rparr>"

text \<open>The path a test is written to, and whether a test has code to write.\<close>

definition fullPath :: "runner \<Rightarrow> ExportedTest \<Rightarrow> string" where
  "fullPath s test = path_join (tempDir s) (file_path test)"

definition has_code :: "ExportedTest \<Rightarrow> bool" where
  "has_code test = truthy (playwright_code test)"

text \<open>
  A discriminator-like segment, \<open>eirtests-\<close>, digits and a slash, at the start of a string
  or somewhere in it.
\<close>

definition disc_here :: "string \<Rightarrow> bool" where
  "disc_here s =
     (prefix ''eirtests-'' s \<and> takeWhile is_digit (drop 9 s) \<noteq> [] \<and>
      prefix ''/'' (dropWhile is_digit (drop 9 s)))"

fun has_disc :: "string \<Rightarrow> bool" where
  "has_disc [] = False"
| "has_disc (c # cs) = (disc_here (c # cs) \<or> has_disc cs)"

text \<open>
  A path at which a file can be written again: a file is there, its parent is a directory,
  and the path itself is one that the calls accept.
\<close>

definition rewritable :: "filesystem \<Rightarrow> string \<Rightarrow> bool" where
  "rewritable d p =
     (is_file (d p) \<and> d (path_dirname p) = Some Dir \<and> \<not> suffix ''/'' p \<and>
      \<not> has_null_byte p \<and> \<not> has_long_segment p)"

text \<open>A report in which every spec keeps its first test entry only.\<close>

definition first_test_only :: "PlaywrightJsonSpec \<Rightarrow> PlaywrightJsonSpec" where
  "first_test_only spec = spec\<lparr>spec_tests := take 1 (spec_tests spec)\<rparr>"

definition first_tests_only :: "PlaywrightJsonSuite \<Rightarrow> PlaywrightJsonSuite" where
  "first_tests_only suite = suite\<lparr>specs := map first_test_only (specs suite)\<rparr>"

text \<open>
  A runner made at time 1761 on a disk that has \<open>/tmp\<close>, with its workspace created; tests
  with code, without code, with the path of another test, and with an empty path.
\<close>

definition ex_config :: EirTestsConfig where
  "ex_config = \<lparr>apiUrl = ''http://localhost:3000'', apiKey = ''ert_key'', siteId = ''site-1''\<rparr>"

definition ex_disk :: filesystem where
  "ex_disk = [''/'' \<mapsto> Dir, ''/tmp'' \<mapsto> Dir]"

definition ex_runner :: runner where
  "ex_runner = new_TestRunner ex_config 1761 ex_disk"

definition ex_ready :: runner where
  "ex_ready = snd (createTempDirectory ex_runner)"

definition ex_test_a :: ExportedTest where
  "ex_test_a = \<lparr>test_id = ''card-a'', title = ''smoke'',
      playwright_code = Some (fence @ ''typescript'' @ nl @ ex_body @ nl @ fence),
      file_path = ''tests/smoke/a.spec.ts''\<rparr>"

definition ex_test_dup :: ExportedTest where
  "ex_test_dup = \<lparr>test_id = ''card-dup'', title = ''smoke again'',
      playwright_code = Some ''expect(2).toBe(2);'',
      file_path = ''tests/smoke/a.spec.ts''\<rparr>"

definition ex_test_nocode :: ExportedTest where
  "ex_test_nocode = \<lparr>test_id = ''card-n'', title = ''draft'',
      playwright_code = None, file_path = ''tests/draft.spec.ts''\<rparr>"

definition ex_test_bad :: ExportedTest where
  "ex_test_bad = \<lparr>test_id = ''card-bad'', title = ''no path'',
      playwright_code = Some ex_body, file_path = ''''\<rparr>"

definition ex_test_noid :: ExportedTest where
  "ex_test_noid = \<lparr>test_id = [], title = ''no id'',
      playwright_code = Some ex_body, file_path = ''tests/smoke/a.spec.ts''\<rparr>"

definition ex_materialized :: runner where
  "ex_materialized = snd (writeTestFiles ex_ready [ex_test_nocode, ex_test_a])"

definition ex_report :: PlaywrightJsonReport where
  "ex_report = \<lparr>suites =
     [\<lparr>suite_title = ''a.spec.ts'', suite_file = ''eirtests-1761/tests/smoke/a.spec.ts'',
       specs = [ex_spec_retry]\<rparr>]\<rparr>"

definition ex_engine :: engine where
  "ex_engine dir env d =
     \<lparr>exec = ExecFailed (Some 3), disk_after = d, results_after = Parsed ex_report\<rparr>"

definition ex_engine_unparsable :: engine where
  "ex_engine_unparsable dir env d =
     \<lparr>exec = ExecFailed (Some 3), disk_after = d, results_after = Unparsable\<rparr>"

definition ex_post :: poster where
  "ex_post submission = NetworkError"

definition ex_exported :: ExportedTests where
  "ex_exported = \<lparr>et_site_id = ''site-1'', et_organization_id = ''org-1'',
                   tests = [ex_test_nocode, ex_test_a]\<rparr>"

definition ex_exported_bad :: ExportedTests where
  "ex_exported_bad = \<lparr>et_site_id = ''site-1'', et_organization_id = ''org-1'',
                   tests = [ex_test_a, ex_test_bad, ex_test_nocode]\<rparr>"

definition ex_spec_two_tests :: PlaywrightJsonSpec where
  "ex_spec_two_tests =
     \<lparr>spec_title = ''login'', spec_tests =
        [\<lparr>pt_title = ''login (chromium)'', results =
           [\<lparr>r_status = Passed, duration = 4, r_error = None\<rparr>]\<rparr>,
         \<lparr>pt_title = ''login (firefox)'', results =
           [\<lparr>r_status = Failed, duration = 6, r_error = Some \<lparr>message = ''boom''\<rparr>\<rparr>]\<rparr>]\<rparr>"

definition ex_suite_two :: PlaywrightJsonSuite where
  "ex_suite_two = \<lparr>suite_title = ''a.spec.ts'',
      suite_file = ''eirtests-1761/tests/smoke/a.spec.ts'', specs = [ex_spec_two_tests]\<rparr>"

section \<open>Properties\<close>

subsection \<open>Secrets\<close>

lemma getAllSecrets_step_apply:
  "getAllSecrets_step env a acc k =
     (if k = a \<and> prefix ''TEST_'' a \<and> truthy (map_of env a) then map_of env a else acc k)"
  by (cases "map_of env a") (simp_all add: getAllSecrets_step_def)

lemma getAllSecrets_fold:
  "fold (getAllSecrets_step env) ks acc k =
     (if k \<in> set ks \<and> prefix ''TEST_'' k \<and> truthy (map_of env k) then map_of env k else acc k)"
proof (induction ks arbitrary: acc)
  case Nil
  then show ?case by simp
next
  case (Cons a ks)
  have "fold (getAllSecrets_step env) (a # ks) acc k =
        fold (getAllSecrets_step env) ks (getAllSecrets_step env a acc) k" by simp
  also have "\<dots> = (if k \<in> set ks \<and> prefix ''TEST_'' k \<and> truthy (map_of env k)
                    then map_of env k else getAllSecrets_step env a acc k)"
    by (rule Cons.IH)
  also have "\<dots> = (if k \<in> set (a # ks) \<and> prefix ''TEST_'' k \<and> truthy (map_of env k)
                    then map_of env k else acc k)"
    unfolding getAllSecrets_step_apply by auto
  finally show ?case .
qed

lemma truthy_dom: "truthy (map_of env k) \<Longrightarrow> k \<in> fst ` set env"
  by (cases "map_of env k") (auto dest: map_of_SomeD simp: rev_image_eqI)

lemma getAllSecrets_apply:
  "getAllSecrets env k =
     (if prefix ''TEST_'' k \<and> truthy (map_of env k) then map_of env k else None)"
  unfolding getAllSecrets_def getAllSecrets_fold using truthy_dom[of env k] by auto

lemma getSecretsForPlaywright_apply:
  "getSecretsForPlaywright env k =
     (if (prefix ''TEST_'' k \<or> k = ''BASE_URL'') \<and> truthy (map_of env k)
      then map_of env k else None)"
  by (cases "map_of env ''BASE_URL''")
     (auto simp: getSecretsForPlaywright_def Let_def getAllSecrets_apply)

text \<open>
  C9, as amended. The bundle holds the keys under the \<open>TEST_\<close> prefix and the key
  \<open>BASE_URL\<close>, and no other: two environments that agree on these keys yield the same
  bundle, whatever their other keys hold.
\<close>

theorem secrets_depend_on_recognized_keys:
  assumes "\<And>k. prefix ''TEST_'' k \<or> k = ''BASE_URL'' \<Longrightarrow> map_of env1 k = map_of env2 k"
  shows "getSecretsForPlaywright env1 = getSecretsForPlaywright env2 \<and>
         dom (getSecretsForPlaywright env1) \<subseteq> {k. prefix ''TEST_'' k \<or> k = ''BASE_URL''}"
proof
  show "getSecretsForPlaywright env1 = getSecretsForPlaywright env2"
  proof
    fix k show "getSecretsForPlaywright env1 k = getSecretsForPlaywright env2 k"
      using assms[of k]
      by (cases "prefix ''TEST_'' k \<or> k = ''BASE_URL''")
         (simp_all add: getSecretsForPlaywright_apply)
  qed
  show "dom (getSecretsForPlaywright env1) \<subseteq> {k. prefix ''TEST_'' k \<or> k = ''BASE_URL''}"
    by (auto simp: getSecretsForPlaywright_apply split: if_splits)
qed

theorem secrets_depend_on_recognized_keys_witness:
  "getSecretsForPlaywright ex_env_a = getSecretsForPlaywright ex_env_c \<and>
   getSecretsForPlaywright ex_env_a ''TEST_USER'' = Some ''u'' \<and>
   getSecretsForPlaywright ex_env_a ''HOME'' = None"
proof -
  have "map_of ex_env_a k = map_of ex_env_c k" if "prefix ''TEST_'' k \<or> k = ''BASE_URL''" for k
    using that by (auto simp: ex_env_a_def ex_env_c_def)
  from secrets_depend_on_recognized_keys[of ex_env_a ex_env_c, OF this]
  show ?thesis by (simp add: getSecretsForPlaywright_apply ex_env_a_def ex_env_c_def)
qed

text \<open>
  The claim as it is written fails: the two environments below have the same entries
  under the prefix, and their bundles differ at the unprefixed key \<open>BASE_URL\<close>.
\<close>

theorem secrets_unprefixed_key_counterexample:
  "test_entries ex_env_a = test_entries ex_env_b \<and>
   prefix ''TEST_'' ''BASE_URL'' = False \<and>
   getSecretsForPlaywright ex_env_a ''BASE_URL'' = Some ''http://a'' \<and>
   getSecretsForPlaywright ex_env_b ''BASE_URL'' = Some ''http://b''"
  by (simp add: ex_env_a_def ex_env_b_def getSecretsForPlaywright_apply)

subsection \<open>The child environment\<close>

text \<open>
  C1, as amended. In the child environment \<open>NODE_PATH\<close> is the path hint; at any other
  key a secret takes precedence over the inherited value, and a key without a secret
  keeps its inherited value. With the secrets that \<open>run\<close> passes, which are read from the
  same environment, the child environment is the inherited one but for \<open>NODE_PATH\<close>.
\<close>

theorem child_env_precedence:
  "child_env penv secrets node_path k =
     (if k = ''NODE_PATH'' then Some node_path
      else case secrets k of Some v \<Rightarrow> Some v | None \<Rightarrow> map_of penv k) \<and>
   child_env penv (getSecretsForPlaywright penv) node_path k =
     (if k = ''NODE_PATH'' then Some node_path else map_of penv k)"
  by (simp add: child_env_def map_add_def getSecretsForPlaywright_apply split: option.split)

theorem child_env_precedence_witness:
  "child_env ex_penv ex_secrets ex_node_path ''HOME'' = Some ''/root'' \<and>
   child_env ex_penv (getSecretsForPlaywright ex_penv) ex_node_path ''TEST_USER'' = Some ''inherited''"
  using child_env_precedence[of ex_penv ex_secrets ex_node_path "''HOME''"]
        child_env_precedence[of ex_penv ex_secrets ex_node_path "''TEST_USER''"]
  by (simp add: ex_penv_def ex_secrets_def)

text \<open>
  The claim as it is written fails: at a key that both hold, the child gets the secret,
  not the inherited value.
\<close>

theorem child_env_override_counterexample:
  "map_of ex_penv ''TEST_USER'' = Some ''inherited'' \<and>
   ex_secrets ''TEST_USER'' = Some ''secret'' \<and>
   child_env ex_penv ex_secrets ex_node_path ''TEST_USER'' = Some ''secret''"
  by (simp add: ex_penv_def ex_secrets_def child_env_def)

subsection \<open>Fences\<close>

lemma replace_start_append: "replace_start pat (pat @ s) = s"
  by (simp add: replace_start_def)

lemma replace_end_append: "replace_end pat (s @ pat) = s"
  by (simp add: replace_end_def suffix_def)

lemma not_prefix_typescript: "\<not> prefix (fence @ ''typescript'' @ nl) (fence @ nl @ s)"
  by (simp add: fence_def nl_def)

lemma clean_code_untagged: "clean_code (fence @ nl @ body @ nl @ fence) = body"
proof -
  have a: "replace_start (fence @ ''typescript'' @ nl) (fence @ nl @ body @ nl @ fence) =
           fence @ nl @ body @ nl @ fence"
    using not_prefix_typescript[of "body @ nl @ fence"] by (simp add: replace_start_def)
  have b: "replace_start (fence @ nl) (fence @ nl @ body @ nl @ fence) = body @ nl @ fence"
    using replace_start_append[of "fence @ nl" "body @ nl @ fence"] by simp
  have c: "replace_end (nl @ fence) (body @ nl @ fence) = body"
    using replace_end_append[of "nl @ fence" body] by simp
  show ?thesis unfolding clean_code_def a b c by simp
qed

lemma clean_code_typescript:
  assumes "\<not> prefix (fence @ nl) (body @ nl @ fence)"
  shows "clean_code (fence @ ''typescript'' @ nl @ body @ nl @ fence) = body"
proof -
  have a: "replace_start (fence @ ''typescript'' @ nl)
             (fence @ ''typescript'' @ nl @ body @ nl @ fence) = body @ nl @ fence"
    using replace_start_append[of "fence @ ''typescript'' @ nl" "body @ nl @ fence"] by simp
  have b: "replace_start (fence @ nl) (body @ nl @ fence) = body @ nl @ fence"
    using assms by (simp add: replace_start_def)
  have c: "replace_end (nl @ fence) (body @ nl @ fence) = body"
    using replace_end_append[of "nl @ fence" body] by simp
  show ?thesis unfolding clean_code_def a b c by simp
qed

text \<open>
  What the code does with the fences it knows: a source text wrapped in a leading fence
  with no language tag and a trailing fence is written as the text inside; so is one
  whose leading fence carries the tag \<open>typescript\<close>, unless the text inside begins with a
  bare fence line of its own. A source text that does not start with a fence is written
  unchanged.
\<close>

lemma clean_code_unwraps:
  "clean_code (fence @ nl @ body @ nl @ fence) = body \<and>
   (\<not> prefix (fence @ nl) (body @ nl @ fence) \<longrightarrow>
      clean_code (fence @ ''typescript'' @ nl @ body @ nl @ fence) = body) \<and>
   (\<not> prefix fence code \<longrightarrow> clean_code code = code)"
  using clean_code_untagged clean_code_typescript by (simp add: clean_code_def)

lemma clean_code_unwraps_example:
  "clean_code (fence @ nl @ ex_body @ nl @ fence) = ex_body \<and>
   clean_code (fence @ ''typescript'' @ nl @ ex_body @ nl @ fence) = ex_body \<and>
   clean_code ex_body = ex_body"
  using clean_code_unwraps[of ex_body ex_body] by (simp add: ex_body_def fence_def nl_def)

text \<open>
  C8. The code is to remove the fences of a wrapped source text. With a language tag
  other than \<open>typescript\<close> it does not: for the tag \<open>ts\<close> the opening fence line stays in
  the file, and only the closing fence is removed.
\<close>

theorem clean_code_other_tag_keeps_opening_fence:
  "clean_code (fence @ ''ts'' @ nl @ ex_body @ nl @ fence) = fence @ ''ts'' @ nl @ ex_body"
  by (simp add: clean_code_def fence_def nl_def replace_start_def replace_end_def
        ex_body_def suffix_def)

subsection \<open>Records of a matched suite\<close>

lemma spec_result_attempts:
  "spec_result cardId spec =
     (if attempts spec = [] then None
      else Some \<lparr>test_card_id = cardId,
                 passed = (r_status (last (attempts spec)) = Passed),
                 duration_ms = duration (last (attempts spec)),
                 error_message = map_option message (r_error (last (attempts spec))),
                 status = (if r_status (last (attempts spec)) = Passed
                           then StatusPassed else StatusFailed)\<rparr>)"
  by (cases "spec_tests spec") (simp_all add: spec_result_def attempts_def Let_def)

text \<open>
  C4, as amended. The records of a matched suite are, in order, one for each spec with a
  non-empty attempt list and none for the others. The record of a spec comes from its
  last attempt alone: \<open>passed\<close> holds iff that attempt's status is \<open>passed\<close>, the duration
  is that attempt's, and the error message is that attempt's whenever it has one,
  whatever its status.
\<close>

theorem specs_loop_last_attempt:
  "specs_loop cardId sps rs =
     rs @ map (\<lambda>spec. \<lparr>test_card_id = cardId,
                 passed = (r_status (last (attempts spec)) = Passed),
                 duration_ms = duration (last (attempts spec)),
                 error_message = map_option message (r_error (last (attempts spec))),
                 status = (if r_status (last (attempts spec)) = Passed
                           then StatusPassed else StatusFailed)\<rparr>)
            (filter (\<lambda>spec. attempts spec \<noteq> []) sps)"
proof (induction sps arbitrary: rs)
  case Nil
  then show ?case by simp
next
  case (Cons sp sps)
  show ?case
    by (cases "attempts sp = []") (simp_all add: Cons.IH spec_result_attempts)
qed

text \<open>A first attempt that fails and a second that passes: one record, \<open>passed\<close>.\<close>

theorem specs_loop_last_attempt_witness:
  "specs_loop ''card-1'' [ex_spec_retry] [] =
     [\<lparr>test_card_id = ''card-1'', passed = True, duration_ms = 9,
       error_message = None, status = StatusPassed\<rparr>]"
  using specs_loop_last_attempt[of "''card-1''" "[ex_spec_retry]" "[]"]
  by (simp add: ex_spec_retry_def attempts_def)

text \<open>
  The claim as it is written fails where the last attempt passed and carries an error:
  the record carries the message.
\<close>

theorem specs_loop_error_on_pass_counterexample:
  "specs_loop ''card-1'' [ex_spec_passed_with_error] [] =
     [\<lparr>test_card_id = ''card-1'', passed = True, duration_ms = 5,
       error_message = Some ''flaky'', status = StatusPassed\<rparr>]"
  by (simp add: ex_spec_passed_with_error_def spec_result_def)

subsection \<open>Materialization\<close>

lemma log_fields [simp]:
  "tempDir (log e s) = tempDir s" "disk (log e s) = disk s"
  "testFileToCardIdMap (log e s) = testFileToCardIdMap s"
  "exportedTests (log e s) = exportedTests s" "results_json (log e s) = results_json s"
  "config (log e s) = config s" "posted (log e s) = posted s"
  by (simp_all add: log_def)

lemma make_dirs_apply: "make_dirs ds d p = (if p \<in> set ds then Some Dir else d p)"
  by (induction ds arbitrary: d) auto

lemma mkdirSync_keeps_files:
  assumes "mkdirSync d dir = Inr d'" and "d p = Some (File c)"
  shows "d' p = Some (File c)"
proof -
  from assms(1) have chain: "\<not> list_ex (\<lambda>q. is_file (d q)) (dir_chain dir)"
    and d': "d' = make_dirs (dir_chain dir) d"
    by (auto simp: mkdirSync_def split: if_splits)
  from chain assms(2) have "p \<notin> set (dir_chain dir)"
    by (auto simp: list_ex_iff)
  then show ?thesis using assms(2) by (simp add: d' make_dirs_apply)
qed

lemma writeFileSync_result:
  "writeFileSync d p data = Inr d' \<Longrightarrow> d' = d(p \<mapsto> File data)"
  by (auto simp: writeFileSync_def split: if_splits)

lemma writeTestFile_Returned:
  assumes "writeTestFile s t = (Returned u, s')"
  shows "tempDir s' = tempDir s"
    and "testFileToCardIdMap s' = (testFileToCardIdMap s)(fullPath s t \<mapsto> test_id t)"
    and "disk s' (fullPath s t) = Some (File (clean_code (the (playwright_code t))))"
    and "p \<noteq> fullPath s t \<Longrightarrow> disk s p = Some (File c) \<Longrightarrow> disk s' p = Some (File c)"
proof -
  let ?full = "path_join (tempDir s) (file_path t)"
  let ?dir = "path_dirname ?full"
  let ?code = "clean_code (the (playwright_code t))"
  obtain d where d: "(if \<not> existsSync (disk s) ?dir then mkdirSync (disk s) ?dir else Inr (disk s)) = Inr d"
    using assms by (cases "if \<not> existsSync (disk s) ?dir then mkdirSync (disk s) ?dir else Inr (disk s)")
      (simp_all add: writeTestFile_def Let_def)
  obtain d' where d': "writeFileSync d ?full ?code = Inr d'"
    using assms d by (cases "writeFileSync d ?full ?code") (simp_all add: writeTestFile_def Let_def)
  have s': "s' = (log (LogWritten (file_path t)) (s\<lparr>disk := d'\<rparr>))
                  \<lparr>testFileToCardIdMap := (testFileToCardIdMap s)(?full \<mapsto> test_id t)\<rparr>"
    using assms d d' by (simp add: writeTestFile_def Let_def)
  have dd: "d' = d(?full \<mapsto> File ?code)" using d' by (rule writeFileSync_result)
  have keep: "d q = Some (File c)" if "disk s q = Some (File c)" for q
    using d that mkdirSync_keeps_files[of "disk s" ?dir d q c] by (auto split: if_splits)
  show "tempDir s' = tempDir s" by (simp add: s')
  show "testFileToCardIdMap s' = (testFileToCardIdMap s)(fullPath s t \<mapsto> test_id t)"
    by (simp add: s' fullPath_def)
  show "disk s' (fullPath s t) = Some (File ?code)" by (simp add: s' dd fullPath_def)
  show "p \<noteq> fullPath s t \<Longrightarrow> disk s p = Some (File c) \<Longrightarrow> disk s' p = Some (File c)"
    using keep[of p] by (simp add: s' dd fullPath_def)
qed

lemma writeTestFile_tempDir: "writeTestFile s t = (r, s') \<Longrightarrow> tempDir s' = tempDir s"
  by (auto simp: writeTestFile_def Let_def split: sum.splits)

lemma loop_tempDir:
  "writeTestFiles_loop s ts w = (r, s') \<Longrightarrow> tempDir s' = tempDir s"
proof (induction ts arbitrary: s w)
  case Nil
  then show ?case by simp
next
  case (Cons t ts)
  show ?case
  proof (cases "truthy (playwright_code t)")
    case False
    then show ?thesis using Cons.prems Cons.IH[of "log (LogSkipping (title t)) s" w] by simp
  next
    case True
    obtain r1 s1 where w1: "writeTestFile s t = (r1, s1)" by (cases "writeTestFile s t")
    show ?thesis
    proof (cases r1)
      case (Returned u)
      then show ?thesis using Cons.prems True w1 Cons.IH[of s1 "w + 1"] writeTestFile_tempDir[OF w1]
        by simp
    next
      case (Thrown e)
      then show ?thesis using Cons.prems True w1 writeTestFile_tempDir[OF w1] by simp
    qed
  qed
qed

lemma loop_append:
  "writeTestFiles_loop s (xs @ ys) w =
     (case writeTestFiles_loop s xs w of
        (Returned n, s1) \<Rightarrow> writeTestFiles_loop s1 ys n
      | (Thrown e, s1) \<Rightarrow> (Thrown e, s1))"
proof (induction xs arbitrary: s w)
  case Nil
  then show ?case by simp
next
  case (Cons t xs)
  show ?case
  proof (cases "truthy (playwright_code t)")
    case False
    then show ?thesis by (simp add: Cons.IH)
  next
    case True
    obtain r1 s1 where w1: "writeTestFile s t = (r1, s1)" by (cases "writeTestFile s t")
    show ?thesis using True w1 by (cases r1) (simp_all add: Cons.IH)
  qed
qed

lemma loop_count:
  "writeTestFiles_loop s ts w = (Returned n, s') \<Longrightarrow> n = w + length (filter has_code ts)"
proof (induction ts arbitrary: s w)
  case Nil
  then show ?case by simp
next
  case (Cons t ts)
  show ?case
  proof (cases "truthy (playwright_code t)")
    case False
    then show ?thesis using Cons.prems Cons.IH[of "log (LogSkipping (title t)) s" w]
      by (simp add: has_code_def)
  next
    case True
    obtain r1 s1 where w1: "writeTestFile s t = (r1, s1)" by (cases "writeTestFile s t")
    show ?thesis using Cons.prems True w1 Cons.IH[of s1 "w + 1"]
      by (cases r1) (simp_all add: has_code_def)
  qed
qed

lemma loop_frame_map:
  assumes "writeTestFiles_loop s ts w = (Returned n, s')"
    and "\<And>u. u \<in> set ts \<Longrightarrow> has_code u \<Longrightarrow> fullPath s u \<noteq> p"
  shows "testFileToCardIdMap s' p = testFileToCardIdMap s p"
  using assms
proof (induction ts arbitrary: s w)
  case Nil
  then show ?case by simp
next
  case (Cons t ts)
  show ?case
  proof (cases "truthy (playwright_code t)")
    case False
    have "testFileToCardIdMap s' p = testFileToCardIdMap (log (LogSkipping (title t)) s) p"
      using Cons.prems False
      by (intro Cons.IH[of "log (LogSkipping (title t)) s" w]) (simp_all add: fullPath_def)
    then show ?thesis by simp
  next
    case True
    obtain r1 s1 where w1: "writeTestFile s t = (r1, s1)" by (cases "writeTestFile s t")
    with Cons.prems(1) True obtain u where r1: "r1 = Returned u" by (cases r1) simp_all
    have td: "tempDir s1 = tempDir s" using w1 by (rule writeTestFile_tempDir)
    have "testFileToCardIdMap s' p = testFileToCardIdMap s1 p"
      using Cons.prems True w1 r1 td by (intro Cons.IH[of s1 "w + 1"]) (simp_all add: fullPath_def)
    moreover have "fullPath s t \<noteq> p" using Cons.prems(2)[of t] True by (simp add: has_code_def)
    ultimately show ?thesis using writeTestFile_Returned(2)[OF w1[unfolded r1]] by simp
  qed
qed

lemma loop_frame_disk:
  assumes "writeTestFiles_loop s ts w = (Returned n, s')"
    and "\<And>u. u \<in> set ts \<Longrightarrow> has_code u \<Longrightarrow> fullPath s u \<noteq> p"
    and "disk s p = Some (File c)"
  shows "disk s' p = Some (File c)"
  using assms
proof (induction ts arbitrary: s w)
  case Nil
  then show ?case by simp
next
  case (Cons t ts)
  show ?case
  proof (cases "truthy (playwright_code t)")
    case False
    show ?thesis
      using Cons.prems False
      by (intro Cons.IH[of "log (LogSkipping (title t)) s" w]) (simp_all add: fullPath_def)
  next
    case True
    obtain r1 s1 where w1: "writeTestFile s t = (r1, s1)" by (cases "writeTestFile s t")
    with Cons.prems(1) True obtain u where r1: "r1 = Returned u" by (cases r1) simp_all
    have td: "tempDir s1 = tempDir s" using w1 by (rule writeTestFile_tempDir)
    have ne: "p \<noteq> fullPath s t" using Cons.prems(2)[of t] True by (auto simp: has_code_def)
    have "disk s1 p = Some (File c)"
      using writeTestFile_Returned(4)[OF w1[unfolded r1] ne] Cons.prems(3) by simp
    then show ?thesis
      using Cons.prems True w1 r1 td by (intro Cons.IH[of s1 "w + 1"]) (simp_all add: fullPath_def)
  qed
qed

lemma loop_last_writer:
  assumes run: "writeTestFiles_loop s (xs @ t # ys) w = (Returned n, s')"
    and code: "has_code t"
    and later: "\<And>u. u \<in> set ys \<Longrightarrow> has_code u \<Longrightarrow> fullPath s u \<noteq> fullPath s t"
  shows "testFileToCardIdMap s' (fullPath s t) = Some (test_id t)"
    and "disk s' (fullPath s t) = Some (File (clean_code (the (playwright_code t))))"
proof -
  obtain r1 s1 where a: "writeTestFiles_loop s xs w = (r1, s1)" by (cases "writeTestFiles_loop s xs w")
  with run obtain n1 where r1: "r1 = Returned n1" by (cases r1) (simp_all add: loop_append)
  have td1: "tempDir s1 = tempDir s" using a by (rule loop_tempDir)
  obtain r2 s2 where b: "writeTestFile s1 t = (r2, s2)" by (cases "writeTestFile s1 t")
  have rest: "writeTestFiles_loop s1 (t # ys) n1 = (Returned n, s')"
    using run a r1 by (simp add: loop_append)
  with b code obtain u where r2: "r2 = Returned u" by (cases r2) (simp_all add: has_code_def)
  have c: "writeTestFiles_loop s2 ys (n1 + 1) = (Returned n, s')"
    using rest b r2 code by (simp add: has_code_def)
  have td2: "tempDir s2 = tempDir s" using writeTestFile_tempDir[OF b] td1 by simp
  have fp: "fullPath s2 v = fullPath s v" "fullPath s1 v = fullPath s v" for v
    by (simp_all add: fullPath_def td1 td2)
  have m2: "testFileToCardIdMap s2 (fullPath s t) = Some (test_id t)"
    using writeTestFile_Returned(2)[OF b[unfolded r2]] by (simp add: fp)
  have d2: "disk s2 (fullPath s t) = Some (File (clean_code (the (playwright_code t))))"
    using writeTestFile_Returned(3)[OF b[unfolded r2]] by (simp add: fp)
  show "testFileToCardIdMap s' (fullPath s t) = Some (test_id t)"
    using loop_frame_map[OF c, of "fullPath s t"] later m2 by (simp add: fp)
  show "disk s' (fullPath s t) = Some (File (clean_code (the (playwright_code t))))"
    using loop_frame_disk[OF c, of "fullPath s t"] later d2 by (simp add: fp)
qed

lemma loop_recorded:
  assumes run: "writeTestFiles_loop s ts w = (Returned n, s')"
    and t: "t \<in> set ts" "has_code t"
  shows "\<exists>u \<in> set ts. has_code u \<and> fullPath s u = fullPath s t \<and>
           testFileToCardIdMap s' (fullPath s t) = Some (test_id u)"
proof -
  have "\<exists>x \<in> set ts. has_code x \<and> fullPath s x = fullPath s t" using t by blast
  then obtain xs u ys where split: "ts = xs @ u # ys"
    and u: "has_code u \<and> fullPath s u = fullPath s t"
    and ys: "\<forall>v \<in> set ys. \<not> (has_code v \<and> fullPath s v = fullPath s t)"
    using split_list_last_prop[of ts "\<lambda>x. has_code x \<and> fullPath s x = fullPath s t"] by blast
  have "testFileToCardIdMap s' (fullPath s u) = Some (test_id u)"
    using loop_last_writer(1)[OF run[unfolded split]] u ys by auto
  then show ?thesis using u split by auto
qed

lemma pair_from_fst: "fst x = a \<Longrightarrow> x = (a, snd x)"
  by (cases x) simp

text \<open>
  C5, as amended. A test without code is logged and skipped. A failure while a test is
  written is not caught in the loop: it leaves \<open>writeTestFiles\<close> at that test, the tests
  after it are not processed and no count is returned; \<open>run\<close> then logs the error, cleans
  up and returns 1.
\<close>

theorem materialization_aborts_on_write_failure:
  assumes "validateConfig s = Returned ()"
    and "createTempDirectory (s\<lparr>exportedTests := Some exported\<rparr>) = (Returned (), s2)"
    and "tests exported = before @ t # rest"
    and "writeTestFiles s2 before = (Returned n, s3)"
    and "has_code t"
    and "writeTestFile s3 t = (Thrown e, s4)"
  shows "writeTestFiles s2 (before @ t # rest) = (Thrown e, s4) \<and>
         run (Inr exported) penv node_path eng post startTime finishTime s =
           (1, cleanup (log (LogError e) s4)) \<and>
         (\<not> has_code t' \<longrightarrow>
            writeTestFiles_loop s0 (t' # rest') w =
              writeTestFiles_loop (log (LogSkipping (title t')) s0) rest' w)"
proof -
  have w: "writeTestFiles s2 (before @ t # rest) = (Thrown e, s4)"
    using assms(4,5,6) by (simp add: writeTestFiles_def loop_append has_code_def)
  then show ?thesis
    using assms(1,2,3) by (simp add: run_def run_try_def has_code_def)
qed

theorem materialization_aborts_on_write_failure_witness:
  "fst (writeTestFiles ex_ready [ex_test_a, ex_test_bad, ex_test_nocode]) =
     Thrown (EISDIR ''/tmp/eirtests-1761'') \<and>
   fst (run (Inr ex_exported_bad) ex_penv ex_node_path ex_engine ex_post ''t0'' ''t1'' ex_runner) = 1"
proof -
  let ?s2 = "snd (createTempDirectory (ex_runner\<lparr>exportedTests := Some ex_exported_bad\<rparr>))"
  let ?s3 = "snd (writeTestFiles ?s2 [ex_test_a])"
  let ?s4 = "snd (writeTestFile ?s3 ex_test_bad)"
  have a: "validateConfig ex_runner = Returned ()" by code_simp
  have b: "createTempDirectory (ex_runner\<lparr>exportedTests := Some ex_exported_bad\<rparr>) = (Returned (), ?s2)"
    by (rule pair_from_fst) code_simp
  have c: "tests ex_exported_bad = [ex_test_a] @ ex_test_bad # [ex_test_nocode]"
    by (simp add: ex_exported_bad_def)
  have d: "writeTestFiles ?s2 [ex_test_a] = (Returned 1, ?s3)"
    by (rule pair_from_fst) code_simp
  have e: "has_code ex_test_bad" by code_simp
  have f: "writeTestFile ?s3 ex_test_bad = (Thrown (EISDIR ''/tmp/eirtests-1761''), ?s4)"
    by (rule pair_from_fst) code_simp
  from materialization_aborts_on_write_failure[OF a b c d e f,
      of ex_penv ex_node_path ex_engine ex_post "''t0''" "''t1''"]
  have "fst (run (Inr ex_exported_bad) ex_penv ex_node_path ex_engine ex_post ''t0'' ''t1'' ex_runner) = 1"
    by simp
  moreover have "fst (writeTestFiles ex_ready [ex_test_a, ex_test_bad, ex_test_nocode]) =
     Thrown (EISDIR ''/tmp/eirtests-1761'')" by code_simp
  ultimately show ?thesis by simp
qed

text \<open>
  The claim as it is written fails: a first test with an empty path cannot be written
  (its path is the workspace directory), and the second test, which can be written alone,
  is not written.
\<close>

theorem materialization_bad_definition_counterexample:
  "fst (writeTestFiles ex_ready [ex_test_bad, ex_test_a]) = Thrown (EISDIR ''/tmp/eirtests-1761'') \<and>
   disk (snd (writeTestFiles ex_ready [ex_test_bad, ex_test_a]))
     ''/tmp/eirtests-1761/tests/smoke/a.spec.ts'' = None \<and>
   fst (writeTestFiles ex_ready [ex_test_a]) = Returned 1"
  by code_simp

lemma writeFileSync_success:
  "writeFileSync d p data = Inr d' \<longleftrightarrow>
     (\<not> has_null_byte p \<and> \<not> has_long_segment p \<and> d (path_dirname p) = Some Dir \<and>
      \<not> suffix ''/'' p \<and> d p \<noteq> Some Dir \<and> d' = d(p \<mapsto> File data))"
  by (auto simp: writeFileSync_def)

lemma mkdirSync_keeps_dirs:
  assumes "mkdirSync d dir = Inr d'" and "d q = Some Dir"
  shows "d' q = Some Dir"
  using assms by (auto simp: mkdirSync_def make_dirs_apply split: if_splits)

lemma writeTestFile_disk:
  assumes "writeTestFile s t = (Returned u, s')"
  shows "\<exists>d. disk s' = d(fullPath s t \<mapsto> File (clean_code (the (playwright_code t)))) \<and>
             writeFileSync d (fullPath s t) (clean_code (the (playwright_code t))) = Inr (disk s') \<and>
             (\<forall>q. disk s q = Some Dir \<longrightarrow> d q = Some Dir)"
proof -
  let ?full = "path_join (tempDir s) (file_path t)"
  let ?dir = "path_dirname ?full"
  let ?code = "clean_code (the (playwright_code t))"
  obtain d where d: "(if \<not> existsSync (disk s) ?dir then mkdirSync (disk s) ?dir else Inr (disk s)) = Inr d"
    using assms by (cases "if \<not> existsSync (disk s) ?dir then mkdirSync (disk s) ?dir else Inr (disk s)")
      (simp_all add: writeTestFile_def Let_def)
  obtain d' where d': "writeFileSync d ?full ?code = Inr d'"
    using assms d by (cases "writeFileSync d ?full ?code") (simp_all add: writeTestFile_def Let_def)
  have s': "disk s' = d'"
    using assms d d' by (auto simp: writeTestFile_def Let_def)
  have dd: "d' = d(?full \<mapsto> File ?code)" using d' by (rule writeFileSync_result)
  have keep: "d q = Some Dir" if "disk s q = Some Dir" for q
    using d that mkdirSync_keeps_dirs[of "disk s" ?dir d q] by (auto split: if_splits)
  show ?thesis using s' dd d' keep by (auto simp: fullPath_def)
qed

lemma writeTestFile_keeps_dirs:
  assumes "writeTestFile s t = (Returned u, s')" and "disk s q = Some Dir"
  shows "disk s' q = Some Dir"
proof -
  from writeTestFile_disk[OF assms(1)] obtain d where
    d: "disk s' = d(fullPath s t \<mapsto> File (clean_code (the (playwright_code t))))"
    and w: "writeFileSync d (fullPath s t) (clean_code (the (playwright_code t))) = Inr (disk s')"
    and k: "\<forall>q. disk s q = Some Dir \<longrightarrow> d q = Some Dir" by blast
  have "d q = Some Dir" using k assms(2) by blast
  moreover have "d (fullPath s t) \<noteq> Some Dir" using w by (simp add: writeFileSync_success)
  ultimately show ?thesis using d by auto
qed

lemma writeTestFile_rewritable_own:
  assumes "writeTestFile s t = (Returned u, s')"
  shows "rewritable (disk s') (fullPath s t)"
proof -
  from writeTestFile_disk[OF assms(1)] obtain d where
    d: "disk s' = d(fullPath s t \<mapsto> File (clean_code (the (playwright_code t))))"
    and w: "writeFileSync d (fullPath s t) (clean_code (the (playwright_code t))) = Inr (disk s')"
    by blast
  have parent: "d (path_dirname (fullPath s t)) = Some Dir" and notdir: "d (fullPath s t) \<noteq> Some Dir"
    and ok: "\<not> suffix ''/'' (fullPath s t)" "\<not> has_null_byte (fullPath s t)"
      "\<not> has_long_segment (fullPath s t)"
    using w by (simp_all add: writeFileSync_success)
  have "path_dirname (fullPath s t) \<noteq> fullPath s t" using parent notdir by auto
  then have "disk s' (path_dirname (fullPath s t)) = Some Dir" using d parent by simp
  then show ?thesis using d ok by (simp add: rewritable_def)
qed

lemma is_file_Some: "is_file x \<longleftrightarrow> (\<exists>c. x = Some (File c))"
  by (cases x rule: is_file.cases) simp_all

lemma writeTestFile_rewritable_other:
  assumes w: "writeTestFile s t = (Returned u, s')" and r: "rewritable (disk s) p"
  shows "rewritable (disk s') p"
proof (cases "p = fullPath s t")
  case True
  then show ?thesis using writeTestFile_rewritable_own[OF w] by simp
next
  case False
  from r obtain c where c: "disk s p = Some (File c)" by (auto simp: rewritable_def is_file_Some)
  have "disk s' p = Some (File c)" using writeTestFile_Returned(4)[OF w False c] .
  moreover have "disk s' (path_dirname p) = Some Dir"
    using writeTestFile_keeps_dirs[OF w] r by (simp add: rewritable_def)
  ultimately show ?thesis using r by (simp add: rewritable_def)
qed

lemma loop_rewritable:
  "writeTestFiles_loop s ts w = (Returned n, s') \<Longrightarrow> rewritable (disk s) p \<Longrightarrow>
   rewritable (disk s') p"
proof (induction ts arbitrary: s w)
  case Nil
  then show ?case by simp
next
  case (Cons t ts)
  show ?case
  proof (cases "truthy (playwright_code t)")
    case False
    then show ?thesis using Cons.prems Cons.IH[of "log (LogSkipping (title t)) s" w] by simp
  next
    case True
    obtain r1 s1 where w1: "writeTestFile s t = (r1, s1)" by (cases "writeTestFile s t")
    with Cons.prems(1) True obtain u where r1: "r1 = Returned u" by (cases r1) simp_all
    have "rewritable (disk s1) p"
      using writeTestFile_rewritable_other[OF w1[unfolded r1] Cons.prems(2)] .
    then show ?thesis using Cons.prems(1) True w1 r1 Cons.IH[of s1 "w + 1"] by simp
  qed
qed

lemma writeTestFile_again:
  assumes "rewritable (disk s) (fullPath s t)"
  shows "\<exists>s'. writeTestFile s t = (Returned (), s')"
proof -
  let ?full = "path_join (tempDir s) (file_path t)"
  have r: "rewritable (disk s) ?full" using assms by (simp add: fullPath_def)
  have ex: "existsSync (disk s) (path_dirname ?full)" using r by (simp add: rewritable_def existsSync_def)
  have "\<exists>d'. writeFileSync (disk s) ?full (clean_code (the (playwright_code t))) = Inr d'"
    using r by (auto simp: writeFileSync_success rewritable_def is_file_Some)
  then show ?thesis using ex by (auto simp: writeTestFile_def Let_def)
qed

text \<open>
  C6, as amended. A test with code whose path an earlier test of the batch was written to
  is written without an error, whatever the batch: it is counted, its code overwrites the
  earlier file and its id the earlier map entry, which stays the one entry of the path,
  and materialization goes on with the tests after it. No error is raised for the shared
  path.
\<close>

theorem materialization_overwrites_duplicate:
  assumes first: "writeTestFiles s (xs @ t # ys) = (Returned n, s1)"
    and t: "has_code t" and t': "has_code t'"
    and same: "fullPath s t' = fullPath s t"
  shows "\<exists>s2. writeTestFiles s (xs @ t # ys @ [t']) = (Returned (n + 1), s2) \<and>
              writeTestFiles s (xs @ t # ys @ t' # zs) = writeTestFiles_loop s2 zs (n + 1) \<and>
              testFileToCardIdMap s2 (fullPath s t) = Some (test_id t') \<and>
              disk s2 (fullPath s t) = Some (File (clean_code (the (playwright_code t')))) \<and>
              n = length (filter has_code (xs @ t # ys))"
proof -
  have loop: "writeTestFiles_loop s (xs @ t # ys) 0 = (Returned n, s1)"
    using first by (simp add: writeTestFiles_def)
  obtain ra sa where a: "writeTestFiles_loop s xs 0 = (ra, sa)" by (cases "writeTestFiles_loop s xs 0")
  with loop obtain na where ra: "ra = Returned na" by (cases ra) (simp_all add: loop_append)
  have tda: "tempDir sa = tempDir s" using a by (rule loop_tempDir)
  obtain rb sb where b: "writeTestFile sa t = (rb, sb)" by (cases "writeTestFile sa t")
  have rest: "writeTestFiles_loop sa (t # ys) na = (Returned n, s1)"
    using loop a ra by (simp add: loop_append)
  with b t obtain u where rb: "rb = Returned u" by (cases rb) (simp_all add: has_code_def)
  have c: "writeTestFiles_loop sb ys (na + 1) = (Returned n, s1)"
    using rest b rb t by (simp add: has_code_def)
  have "rewritable (disk sb) (fullPath sa t)" using writeTestFile_rewritable_own[OF b[unfolded rb]] .
  then have "rewritable (disk sb) (fullPath s t)" by (simp add: fullPath_def tda)
  then have rw: "rewritable (disk s1) (fullPath s t)" using loop_rewritable[OF c] by simp
  have td1: "tempDir s1 = tempDir s" using loop by (rule loop_tempDir)
  have fp: "fullPath s1 t' = fullPath s t" using same by (simp add: fullPath_def td1)
  from writeTestFile_again[of s1 t'] rw fp obtain s2 where w2: "writeTestFile s1 t' = (Returned (), s2)"
    by auto
  have one: "writeTestFiles_loop s1 (t' # zs') n = writeTestFiles_loop s2 zs' (n + 1)" for zs'
    using w2 t' by (simp add: has_code_def)
  have app: "writeTestFiles_loop s ((xs @ t # ys) @ t' # zs') 0 = writeTestFiles_loop s2 zs' (n + 1)" for zs'
    using loop one[of zs'] by (simp only: loop_append[of s "xs @ t # ys"] prod.case outcome.case)
  have e1: "writeTestFiles s (xs @ t # ys @ [t']) = (Returned (n + 1), s2)"
    using app[of "[]"] by (simp add: writeTestFiles_def)
  have e2: "writeTestFiles s (xs @ t # ys @ t' # zs) = writeTestFiles_loop s2 zs (n + 1)"
    using app[of zs] by (simp add: writeTestFiles_def)
  have m: "testFileToCardIdMap s2 (fullPath s t) = Some (test_id t')"
    using writeTestFile_Returned(2)[OF w2] fp by simp
  have d: "disk s2 (fullPath s t) = Some (File (clean_code (the (playwright_code t'))))"
    using writeTestFile_Returned(3)[OF w2] fp by simp
  show ?thesis using e1 e2 m d loop_count[OF loop] by auto
qed

theorem materialization_overwrites_duplicate_witness:
  "fst (writeTestFiles ex_ready ([ex_test_nocode] @ ex_test_a # [] @ [ex_test_dup])) = Returned 2"
proof -
  have f: "writeTestFiles ex_ready ([ex_test_nocode] @ ex_test_a # []) =
           (Returned 1, snd (writeTestFiles ex_ready ([ex_test_nocode] @ ex_test_a # [])))"
    by (rule pair_from_fst) code_simp
  have a: "has_code ex_test_a" by code_simp
  have b: "has_code ex_test_dup" by code_simp
  have c: "fullPath ex_ready ex_test_dup = fullPath ex_ready ex_test_a" by code_simp
  from materialization_overwrites_duplicate[OF f a b c, of "[]"]
  show ?thesis by auto
qed

text \<open>
  The claim as it is written fails: two tests with the same path are both written, with
  no error, and the second one's id and code are what remains.
\<close>

theorem materialization_duplicate_path_counterexample:
  "file_path ex_test_a = file_path ex_test_dup \<and>
   fst (writeTestFiles ex_ready [ex_test_a, ex_test_dup]) = Returned 2 \<and>
   testFileToCardIdMap (snd (writeTestFiles ex_ready [ex_test_a, ex_test_dup]))
     ''/tmp/eirtests-1761/tests/smoke/a.spec.ts'' = Some ''card-dup'' \<and>
   disk (snd (writeTestFiles ex_ready [ex_test_a, ex_test_dup]))
     ''/tmp/eirtests-1761/tests/smoke/a.spec.ts'' = Some (File ''expect(2).toBe(2);'')"
  by code_simp

subsection \<open>The match of the workspace directory\<close>

lemma not_digit_slash: "\<not> is_digit CHR ''/''" "\<not> is_digit CHR ''e''"
  by (simp_all add: is_digit_def)

lemma match_here_disc:
  assumes "ds \<noteq> []" "list_all is_digit ds" "p \<noteq> []" "\<not> list_ex is_line_terminator p"
  shows "match_here (''eirtests-'' @ ds @ ''/'' @ p) = Some p"
proof -
  have all: "\<forall>x \<in> set ds. is_digit x" using assms(2) by (simp add: list_all_iff)
  have tw: "takeWhile is_digit (ds @ CHR ''/'' # p) = ds"
    using all by (simp add: not_digit_slash)
  have dw: "dropWhile is_digit (ds @ CHR ''/'' # p) = CHR ''/'' # p"
    using all by (simp add: not_digit_slash)
  show ?thesis using assms(1,3,4) by (simp add: match_here_def tw dw)
qed

lemma no_border:
  assumes pre: "prefix E (q @ E @ r)" and q: "q \<noteq> []" and short: "length q < length E"
    and last: "last E \<notin> set (butlast E)"
  shows False
proof -
  let ?n = "length E"
  have ne: "E \<noteq> []" using short by auto
  from pre obtain zs where eq: "q @ E @ r = E @ zs" by (auto simp: prefix_def)
  have "(q @ E @ r) ! (?n - 1) = (E @ zs) ! (?n - 1)" by (simp only: eq)
  also have "\<dots> = E ! (?n - 1)" using ne by (simp add: nth_append)
  also have "\<dots> = last E" using ne by (simp add: last_conv_nth)
  finally have a: "(q @ E @ r) ! (?n - 1) = last E" .
  let ?j = "?n - 1 - length q"
  have j: "?j < ?n - 1" using q short by (cases q) auto
  have jn: "?j < ?n" using j by arith
  have "(q @ E @ r) ! (?n - 1) = (E @ r) ! ?j" using short by (simp add: nth_append)
  also have "\<dots> = E ! ?j" using jn by (simp add: nth_append)
  also have "\<dots> = butlast E ! ?j" using j by (simp add: nth_butlast)
  finally have "(q @ E @ r) ! (?n - 1) \<in> set (butlast E)"
    using j nth_mem[of ?j "butlast E"] by simp
  then show False using a last by simp
qed

lemma prefix_of_long_front:
  assumes "prefix E (q @ R)" and "length E \<le> length q"
  shows "prefix E q"
proof -
  from assms(1) obtain zs where eq: "q @ R = E @ zs" by (auto simp: prefix_def)
  have "take (length E) (q @ R) = take (length E) (E @ zs)" by (simp only: eq)
  then have "take (length E) q = E" using assms(2) by simp
  then show ?thesis by (metis take_is_prefix)
qed

lemma prefix_in_front:
  assumes "prefix ''eirtests-'' (q @ ''eirtests-'' @ r)" "q \<noteq> []"
  shows "prefix ''eirtests-'' q"
proof (cases "length q < length ''eirtests-''")
  case True
  have "last ''eirtests-'' \<notin> set (butlast ''eirtests-'')" by simp
  from no_border[OF assms True this] show ?thesis ..
next
  case False
  then have "length ''eirtests-'' \<le> length q" by simp
  from prefix_of_long_front[OF assms(1) this] show ?thesis .
qed

lemma match_here_prefix: "match_here s \<noteq> None \<Longrightarrow> prefix ''eirtests-'' s"
  by (simp add: match_here_def split: if_splits)

lemma match_here_inside:
  assumes m0: "match_here (q @ CHR ''e'' # R') \<noteq> None" and pq: "prefix ''eirtests-'' q"
  shows "disc_here q"
proof -
  define R where "R = CHR ''e'' # R'"
  have m: "match_here (q @ R) \<noteq> None" unfolding R_def by (rule m0)
  have len: "9 \<le> length q" using pq prefix_length_le by fastforce
  have pre: "prefix ''eirtests-'' (q @ R)" using pq by (rule prefix_prefix)
  let ?t = "drop 9 q"
  have dr: "drop 9 (q @ R) = ?t @ R" using len by simp
  have mh: "match_here (q @ R) =
     (case dropWhile is_digit (?t @ R) of
        [] \<Rightarrow> None
      | c # rel \<Rightarrow>
          if takeWhile is_digit (?t @ R) \<noteq> [] \<and> c = CHR ''/'' \<and> rel \<noteq> [] \<and>
             \<not> list_ex is_line_terminator rel
          then Some rel else None)"
    unfolding match_here_def using pre by (simp only: if_True Let_def dr)
  show ?thesis
  proof (cases "\<forall>x \<in> set ?t. is_digit x")
    case True
    have dwR: "dropWhile is_digit (?t @ R) = R"
      using True by (simp add: not_digit_slash R_def)
    have "match_here (q @ R) = None" unfolding mh dwR by (simp add: R_def)
    then show ?thesis using m by simp
  next
    case False
    then obtain x where x: "x \<in> set ?t" "\<not> is_digit x" by blast
    have tw: "takeWhile is_digit (?t @ R) = takeWhile is_digit ?t"
      using x by (rule takeWhile_append1)
    have dw: "dropWhile is_digit (?t @ R) = dropWhile is_digit ?t @ R"
      using x by (rule dropWhile_append1)
    have ne: "dropWhile is_digit ?t \<noteq> []" using x by auto
    then obtain c rest where cr: "dropWhile is_digit ?t = c # rest"
      by (cases "dropWhile is_digit ?t") auto
    from m have "takeWhile is_digit ?t \<noteq> [] \<and> c = CHR ''/''"
      by (simp add: mh tw dw cr split: if_splits)
    then show ?thesis using pq cr by (simp add: disc_here_def)
  qed
qed

lemma tempDirMatch_skip_prefix:
  assumes "\<not> has_disc pre"
  shows "tempDirMatch (pre @ ''eirtests-'' @ r) = tempDirMatch (''eirtests-'' @ r)"
  using assms
proof (induction pre)
  case Nil
  then show ?case by simp
next
  case (Cons c pre)
  have nd: "\<not> disc_here (c # pre)" and nh: "\<not> has_disc pre" using Cons.prems by simp_all
  have "match_here ((c # pre) @ ''eirtests-'' @ r) = None"
  proof (rule ccontr)
    assume a: "match_here ((c # pre) @ ''eirtests-'' @ r) \<noteq> None"
    then have "prefix ''eirtests-'' ((c # pre) @ ''eirtests-'' @ r)"
      by (rule match_here_prefix)
    then have "prefix ''eirtests-'' (c # pre)" by (rule prefix_in_front) simp
    moreover have eq: "''eirtests-'' @ r = CHR ''e'' # (''irtests-'' @ r)" by simp
    moreover have "match_here ((c # pre) @ CHR ''e'' # (''irtests-'' @ r)) \<noteq> None"
      using a unfolding eq .
    ultimately have "disc_here (c # pre)" using match_here_inside by blast
    then show False using nd by simp
  qed
  then have "tempDirMatch (c # (pre @ ''eirtests-'' @ r)) = tempDirMatch (pre @ ''eirtests-'' @ r)"
    by (simp only: tempDirMatch.simps append_Cons option.case)
  then show ?case using Cons.IH[OF nh] by simp
qed

lemma tempDirMatch_disc:
  assumes "\<not> has_disc pre" "ds \<noteq> []" "list_all is_digit ds" "p \<noteq> []"
    "\<not> list_ex is_line_terminator p"
  shows "tempDirMatch (pre @ ''eirtests-'' @ ds @ ''/'' @ p) = Some p"
proof -
  have "tempDirMatch (''eirtests-'' @ ds @ ''/'' @ p) = Some p"
    using match_here_disc[OF assms(2-5)] by simp
  then show ?thesis using tempDirMatch_skip_prefix[OF assms(1), of "ds @ ''/'' @ p"] by simp
qed

lemma decimal_digits: "decimal n \<noteq> [] \<and> list_all is_digit (decimal n)"
proof (induction n rule: decimal.induct)
  case (1 n)
  have d: "is_digit (''0123456789'' ! k)" if "k < 10" for k
  proof -
    have "''0123456789'' ! k \<in> set ''0123456789''" using that by (intro nth_mem) simp
    then show ?thesis by (simp only: is_digit_def)
  qed
  show ?case
  proof (cases "n < 10")
    case True
    have "decimal n = [''0123456789'' ! n]"
      using True by (subst decimal.simps) simp
    then show ?thesis using d[OF True] by simp
  next
    case False
    have "decimal n = decimal (n div 10) @ [''0123456789'' ! (n mod 10)]"
      using False by (subst decimal.simps) simp
    then show ?thesis using 1[OF False] d[of "n mod 10"] by simp
  qed
qed

text \<open>
  C3, as amended. Let materialization succeed on a batch, one of its tests with code at a
  relative path that is not empty and has no line terminator. Then the map holds for that
  path the id of a test of the batch that was written there; and a suite whose file is any
  prefix without a discriminator-like segment, followed by \<open>eirtests-\<close>, digits (those of
  the run or any other), a slash and the relative path, is mapped to that id when it is
  not the empty string, and is skipped when it is.
\<close>

theorem correlation_round_trip:
  assumes mat: "writeTestFiles s defs = (Returned n, s')"
    and t: "t \<in> set defs" "has_code t"
    and p: "file_path t \<noteq> []" "\<not> list_ex is_line_terminator (file_path t)"
    and ds: "ds \<noteq> []" "list_all is_digit ds"
    and pre: "\<not> has_disc pre"
  shows "\<exists>u. u \<in> set defs \<and> has_code u \<and> fullPath s u = fullPath s t \<and>
             testFileToCardIdMap s' (fullPath s t) = Some (test_id u) \<and>
             testCardId s' (pre @ ''eirtests-'' @ ds @ ''/'' @ file_path t) =
               (if test_id u = [] then None else Some (test_id u))"
proof -
  have loop: "writeTestFiles_loop s defs 0 = (Returned n, s')"
    using mat by (simp add: writeTestFiles_def)
  from loop_recorded[OF loop t] obtain u where u: "u \<in> set defs" "has_code u"
    "fullPath s u = fullPath s t"
    and rec: "testFileToCardIdMap s' (fullPath s t) = Some (test_id u)" by blast
  have td: "tempDir s' = tempDir s" using loop by (rule loop_tempDir)
  have m: "tempDirMatch (pre @ ''eirtests-'' @ ds @ ''/'' @ file_path t) = Some (file_path t)"
    using tempDirMatch_disc[OF pre ds p] .
  have fp: "testFilePath s' (pre @ ''eirtests-'' @ ds @ ''/'' @ file_path t) = fullPath s t"
    unfolding testFilePath_def m by (simp add: fullPath_def td)
  have "testCardId s' (pre @ ''eirtests-'' @ ds @ ''/'' @ file_path t) =
          (if test_id u = [] then None else Some (test_id u))"
    unfolding testCardId_def fp rec by (simp add: Let_def)
  then show ?thesis using rec u by blast
qed

theorem correlation_round_trip_witness:
  "testCardId ex_materialized
     (''/private/tmp/'' @ ''eirtests-'' @ decimal 1761 @ ''/'' @ file_path ex_test_a) = Some ''card-a'' \<and>
   testCardId (snd (writeTestFiles ex_ready [ex_test_a, ex_test_noid]))
     (''/private/tmp/'' @ ''eirtests-'' @ decimal 1761 @ ''/'' @ file_path ex_test_a) = None"
proof -
  have m: "writeTestFiles ex_ready [ex_test_nocode, ex_test_a] = (Returned 1, ex_materialized)"
    unfolding ex_materialized_def by (rule pair_from_fst) code_simp
  have m2: "writeTestFiles ex_ready [ex_test_a, ex_test_noid] =
            (Returned 2, snd (writeTestFiles ex_ready [ex_test_a, ex_test_noid]))"
    by (rule pair_from_fst) code_simp
  have t: "ex_test_a \<in> set [ex_test_nocode, ex_test_a]" by simp
  have t2: "ex_test_a \<in> set [ex_test_a, ex_test_noid]" by simp
  have c: "has_code ex_test_a" by code_simp
  have p: "file_path ex_test_a \<noteq> []" "\<not> list_ex is_line_terminator (file_path ex_test_a)"
    by code_simp+
  have d: "decimal 1761 \<noteq> []" "list_all is_digit (decimal 1761)"
    using decimal_digits[of 1761] by simp_all
  have pre: "\<not> has_disc ''/private/tmp/''" by code_simp
  have r1: "testFileToCardIdMap ex_materialized (fullPath ex_ready ex_test_a) = Some ''card-a''"
    by code_simp
  have r2: "testFileToCardIdMap (snd (writeTestFiles ex_ready [ex_test_a, ex_test_noid]))
              (fullPath ex_ready ex_test_a) = Some []"
    by code_simp
  from correlation_round_trip[OF m t c p d pre] r1
  have a: "testCardId ex_materialized
     (''/private/tmp/'' @ ''eirtests-'' @ decimal 1761 @ ''/'' @ file_path ex_test_a) = Some ''card-a''"
    by auto
  from correlation_round_trip[OF m2 t2 c p d pre] r2
  have b: "testCardId (snd (writeTestFiles ex_ready [ex_test_a, ex_test_noid]))
     (''/private/tmp/'' @ ''eirtests-'' @ decimal 1761 @ ''/'' @ file_path ex_test_a) = None"
    by auto
  show ?thesis using a b by simp
qed

text \<open>
  The claim as it is written fails for a prefix that has a discriminator-like segment of
  its own: the match starts there, the path that is looked up is not in the map, and the
  suite is skipped.
\<close>

theorem correlation_earlier_discriminator_counterexample:
  "fst (writeTestFiles ex_ready [ex_test_nocode, ex_test_a]) = Returned 1 \<and>
   testFileToCardIdMap ex_materialized ''/tmp/eirtests-1761/tests/smoke/a.spec.ts'' = Some ''card-a'' \<and>
   tempDir ex_materialized = ''/tmp/eirtests-1761'' \<and>
   testCardId ex_materialized
     (''/builds/eirtests-42/'' @ ''eirtests-1761'' @ ''/'' @ ''tests/smoke/a.spec.ts'') = None"
  by code_simp

subsection \<open>Only the first test entry of a spec\<close>

lemma spec_result_first_test_only: "spec_result cardId (first_test_only spec) = spec_result cardId spec"
  by (cases "spec_tests spec") (simp_all add: spec_result_def first_test_only_def)

lemma specs_loop_first_test_only:
  "specs_loop cardId (map first_test_only sps) rs = specs_loop cardId sps rs"
  by (induction sps arbitrary: rs) (simp_all add: spec_result_first_test_only split: option.split)

lemma specs_loop_length: "length (specs_loop cardId sps rs) \<le> length rs + length sps"
proof (induction sps arbitrary: rs)
  case Nil
  then show ?case by simp
next
  case (Cons sp sps)
  show ?case
  proof (cases "spec_result cardId sp")
    case None
    then show ?thesis using Cons.IH[of rs] by simp
  next
    case (Some r)
    then show ?thesis using Cons.IH[of "rs @ [r]"] by simp
  qed
qed

lemma first_tests_only_fields:
  "suite_file (first_tests_only st) = suite_file st"
  "specs (first_tests_only st) = map first_test_only (specs st)"
  by (simp_all add: first_tests_only_def)

lemma suites_loop_first_tests_only:
  "suites_loop (map first_tests_only sts) (rs, s) = suites_loop sts (rs, s)"
proof (induction sts arbitrary: rs s)
  case Nil
  then show ?case by simp
next
  case (Cons st sts)
  show ?case
    by (cases "testCardId s (suite_file st)")
       (simp_all add: Cons.IH first_tests_only_fields specs_loop_first_test_only)
qed

text \<open>
  C10. Correlation reads the first test entry of each spec and no other: dropping every
  later entry from a report changes neither the records nor the runner, its console
  included, so nothing is printed for them; and a suite adds at most one record for each
  of its specs.
\<close>

theorem correlation_reads_first_test_only:
  "suites_loop (map first_tests_only sts) (rs, s) = suites_loop sts (rs, s) \<and>
   length (specs_loop cardId sps rs) \<le> length rs + length sps"
  by (simp add: suites_loop_first_tests_only specs_loop_length)

theorem correlation_reads_first_test_only_witness:
  "suites_loop (map first_tests_only [ex_suite_two]) ([], ex_materialized) =
     suites_loop [ex_suite_two] ([], ex_materialized) \<and>
   fst (suites_loop [ex_suite_two] ([], ex_materialized)) =
     [\<lparr>test_card_id = ''card-a'', passed = True, duration_ms = 4,
       error_message = None, status = StatusPassed\<rparr>] \<and>
   console (snd (suites_loop [ex_suite_two] ([], ex_materialized))) = console ex_materialized"
proof -
  have "fst (suites_loop [ex_suite_two] ([], ex_materialized)) =
     [\<lparr>test_card_id = ''card-a'', passed = True, duration_ms = 4,
       error_message = None, status = StatusPassed\<rparr>]" by code_simp
  moreover have "console (snd (suites_loop [ex_suite_two] ([], ex_materialized))) = console ex_materialized"
    by code_simp
  ultimately show ?thesis
    using correlation_reads_first_test_only[of "[ex_suite_two]" "[]" ex_materialized] by simp
qed

subsection \<open>The run\<close>

lemma rmSync_gone: "\<not> existsSync (rmSync d p) p"
  by (simp add: existsSync_def rmSync_def)

lemma cleanup_tempDir [simp]: "tempDir (cleanup s) = tempDir s"
  by (simp add: cleanup_def)

lemma cleanup_gone: "\<not> existsSync (disk (cleanup s)) (tempDir s)"
  by (simp add: cleanup_def rmSync_gone)

lemma cleanup_absent: "\<not> existsSync (disk s) (tempDir s) \<Longrightarrow> cleanup s = s"
  by (simp add: cleanup_def)

lemma cleanup_idem: "cleanup (cleanup s) = cleanup s"
  using cleanup_absent[of "cleanup s"] cleanup_gone[of s] by simp

lemma run_ends_in_cleanup:
  "\<exists>s'. snd (run fetched penv node_path eng post startTime finishTime s) = cleanup s' \<or>
        (\<exists>e. snd (run fetched penv node_path eng post startTime finishTime s) = log e (cleanup s'))"
  unfolding run_def run_try_def
  by (auto simp: Let_def split: outcome.splits sum.splits prod.splits if_splits)

lemma suites_loop_tempDir: "tempDir (snd (suites_loop sts (rs, s))) = tempDir s"
proof (induction sts arbitrary: rs s)
  case Nil
  then show ?case by simp
next
  case (Cons st sts)
  show ?case by (cases "testCardId s (suite_file st)") (simp_all add: Cons.IH)
qed

lemma reportResults_tempDir: "tempDir (reportResults post st ft c s) = tempDir s"
proof (cases "exportedTests s")
  case None
  then show ?thesis by (simp add: reportResults_def)
next
  case (Some exported)
  show ?thesis
  proof (cases "results_json s")
    case NoResultsFile
    then show ?thesis using Some by (simp add: reportResults_def Let_def)
  next
    case Unparsable
    then show ?thesis using Some by (simp add: reportResults_def Let_def)
  next
    case (Parsed rep)
    obtain rs s2 where sl: "suites_loop (suites rep) ([], log LogReporting s) = (rs, s2)"
      by (cases "suites_loop (suites rep) ([], log LogReporting s)")
    have "tempDir s2 = tempDir s" using suites_loop_tempDir[of "suites rep" "[]" "log LogReporting s"] sl by simp
    then show ?thesis using Some Parsed sl
      by (simp add: reportResults_def Let_def split: http_outcome.split)
  qed
qed

lemma createTempDirectory_tempDir: "createTempDirectory s = (r, s') \<Longrightarrow> tempDir s' = tempDir s"
  by (auto simp: createTempDirectory_def split: if_splits sum.splits)

lemma executeTests_tempDir: "executeTests eng penv np s secrets = (c, s') \<Longrightarrow> tempDir s' = tempDir s"
  by (auto simp: executeTests_def Let_def split: exec_result.splits)

lemma run_try_tempDir:
  "run_try fetched penv np eng post st ft s = (r, s') \<Longrightarrow> tempDir s' = tempDir s"
proof -
  assume a: "run_try fetched penv np eng post st ft s = (r, s')"
  show ?thesis
  proof (cases "validateConfig s")
    case (Thrown e)
    then show ?thesis using a by (simp add: run_try_def)
  next
    case (Returned u)
    show ?thesis
    proof (cases fetched)
      case (Inl e)
      then show ?thesis using a Returned by (simp add: run_try_def)
    next
      case (Inr exported)
      obtain r2 s2 where c: "createTempDirectory (s\<lparr>exportedTests := Some exported\<rparr>) = (r2, s2)"
        by (cases "createTempDirectory (s\<lparr>exportedTests := Some exported\<rparr>)")
      have t2: "tempDir s2 = tempDir s" using createTempDirectory_tempDir[OF c] by simp
      show ?thesis
      proof (cases r2)
        case (Thrown e)
        then show ?thesis using a Returned Inr c t2 by (simp add: run_try_def)
      next
        case r2: (Returned u2)
        obtain r3 s3 where w: "writeTestFiles s2 (tests exported) = (r3, s3)"
          by (cases "writeTestFiles s2 (tests exported)")
        have t3: "tempDir s3 = tempDir s"
          using loop_tempDir[of s2 "tests exported" 0 r3 s3] w t2 by (simp add: writeTestFiles_def)
        show ?thesis
        proof (cases r3)
          case (Thrown e)
          then show ?thesis using a Returned Inr c r2 w t3 by (simp add: run_try_def)
        next
          case r3: (Returned n)
          show ?thesis
          proof (cases "n = 0")
            case True
            then show ?thesis using a Returned Inr c r2 w r3 t3 by (auto simp: run_try_def Let_def)
          next
            case False
            obtain code s5 where e: "executeTests eng penv np (log (LogWroteCount n) s3) (getSecretsForPlaywright penv) = (code, s5)"
              by (cases "executeTests eng penv np (log (LogWroteCount n) s3) (getSecretsForPlaywright penv)")
            have t5: "tempDir s5 = tempDir s" using executeTests_tempDir[OF e] t3 by simp
            show ?thesis using a Returned Inr c r2 w r3 False e t5
              by (auto simp: run_try_def Let_def reportResults_tempDir)
          qed
        qed
      qed
    qed
  qed
qed

lemma run_tempDir: "tempDir (snd (run fetched penv np eng post st ft s)) = tempDir s"
proof -
  obtain r s' where a: "run_try fetched penv np eng post st ft s = (r, s')"
    by (cases "run_try fetched penv np eng post st ft s")
  show ?thesis using a run_try_tempDir[OF a] by (cases r) (simp_all add: run_def)
qed

text \<open>
  C2. Whatever the fetch, the disk, the engine and the submission do, when \<open>run\<close> returns the
  workspace directory of the runner does not exist; cleaning up twice is cleaning up
  once, and cleaning up with no workspace on disk changes nothing.
\<close>

theorem run_cleans_up_workspace:
  "\<not> existsSync (disk (snd (run fetched penv node_path eng post startTime finishTime s))) (tempDir s) \<and>
   tempDir (snd (run fetched penv node_path eng post startTime finishTime s)) = tempDir s \<and>
   cleanup (cleanup s) = cleanup s \<and>
   (\<not> existsSync (disk s) (tempDir s) \<longrightarrow> cleanup s = s)"
proof -
  obtain s' where "snd (run fetched penv node_path eng post startTime finishTime s) = cleanup s' \<or>
        (\<exists>e. snd (run fetched penv node_path eng post startTime finishTime s) = log e (cleanup s'))"
    using run_ends_in_cleanup by blast
  then have "\<not> existsSync (disk (snd (run fetched penv node_path eng post startTime finishTime s)))
       (tempDir (snd (run fetched penv node_path eng post startTime finishTime s)))"
    using cleanup_gone[of s'] by auto
  then show ?thesis using run_tempDir cleanup_idem cleanup_absent by simp
qed

theorem run_cleans_up_workspace_witness:
  "existsSync (disk (snd (run (Inr ex_exported) ex_penv ex_node_path ex_engine ex_post ''t0'' ''t1'' ex_runner)))
     (tempDir (snd (run (Inr ex_exported) ex_penv ex_node_path ex_engine ex_post ''t0'' ''t1'' ex_runner))) = False \<and>
   existsSync (disk (snd (executeTests ex_engine ex_penv ex_node_path ex_materialized Map.empty)))
     ''/tmp/eirtests-1761'' = True"
proof -
  have "existsSync (disk (snd (executeTests ex_engine ex_penv ex_node_path ex_materialized Map.empty)))
     ''/tmp/eirtests-1761'' = True" by code_simp
  then show ?thesis
    using run_cleans_up_workspace[of "Inr ex_exported" ex_penv ex_node_path ex_engine ex_post "''t0''" "''t1''" ex_runner]
    by simp
qed

lemma console_log: "console (log e s) = console s @ [e]"
  by (simp add: log_def)

lemma cleanup_console: "\<exists>ws. console (cleanup s) = console s @ ws"
  by (simp add: cleanup_def console_log)

lemma cleanup_fields [simp]:
  "posted (cleanup s) = posted s"
  by (simp add: cleanup_def)

lemma writeTestFile_others:
  "writeTestFile s t = (r, s') \<Longrightarrow> exportedTests s' = exportedTests s \<and> posted s' = posted s"
  by (auto simp: writeTestFile_def Let_def split: sum.splits)

lemma loop_others:
  "writeTestFiles_loop s ts w = (r, s') \<Longrightarrow> exportedTests s' = exportedTests s \<and> posted s' = posted s"
proof (induction ts arbitrary: s w)
  case Nil
  then show ?case by simp
next
  case (Cons t ts)
  show ?case
  proof (cases "truthy (playwright_code t)")
    case False
    then show ?thesis using Cons.prems Cons.IH[of "log (LogSkipping (title t)) s" w] by simp
  next
    case True
    obtain r1 s1 where w1: "writeTestFile s t = (r1, s1)" by (cases "writeTestFile s t")
    show ?thesis
    proof (cases r1)
      case (Returned u)
      then show ?thesis using Cons.prems True w1 Cons.IH[of s1 "w + 1"] writeTestFile_others[OF w1]
        by simp
    next
      case (Thrown e)
      then show ?thesis using Cons.prems True w1 writeTestFile_others[OF w1] by simp
    qed
  qed
qed

lemma createTempDirectory_others:
  "createTempDirectory s = (r, s') \<Longrightarrow> exportedTests s' = exportedTests s \<and> posted s' = posted s"
  by (auto simp: createTempDirectory_def split: if_splits sum.splits)

lemma executeTests_others:
  "executeTests eng penv np s secrets = (c, s') \<Longrightarrow>
     exportedTests s' = exportedTests s \<and> posted s' = posted s \<and> console s' = console s"
  by (auto simp: executeTests_def Let_def split: exec_result.splits)

lemma suites_loop_others:
  "posted (snd (suites_loop sts (rs, s))) = posted s \<and>
   (\<exists>ws. console (snd (suites_loop sts (rs, s))) = console s @ ws)"
proof (induction sts arbitrary: rs s)
  case Nil
  then show ?case by simp
next
  case (Cons st sts)
  show ?case
  proof (cases "testCardId s (suite_file st)")
    case None
    let ?s1 = "log (LogNoCardId (suite_file st) (testFilePath s (suite_file st))) s"
    from Cons.IH[of rs ?s1] obtain ws where
      "posted (snd (suites_loop sts (rs, ?s1))) = posted ?s1"
      "console (snd (suites_loop sts (rs, ?s1))) = console ?s1 @ ws" by blast
    then show ?thesis using None by (simp add: console_log)
  next
    case (Some cardId)
    then show ?thesis using Cons.IH[of "specs_loop cardId (specs st) rs" s] by simp
  qed
qed

lemma reportResults_unparsable:
  assumes "exportedTests s = Some exported" and "results_json s = Unparsable"
  shows "reportResults post st ft c s = log LogReportFailed (log LogReporting s)"
  using assms by (simp add: reportResults_def Let_def)

lemma reportResults_failed_post:
  assumes ex: "exportedTests s = Some exported"
    and p: "posted (reportResults post st ft c s) = posted s @ [sub]"
    and f: "post sub \<noteq> OkBody"
  shows "\<exists>ws. console (reportResults post st ft c s) = console s @ ws @ [LogReportFailed]"
proof (cases "results_json s")
  case NoResultsFile
  then show ?thesis using ex p by (simp add: reportResults_def Let_def)
next
  case Unparsable
  then show ?thesis using ex p by (simp add: reportResults_def Let_def)
next
  case (Parsed rep)
  obtain rs s2 where sl: "suites_loop (suites rep) ([], log LogReporting s) = (rs, s2)"
    by (cases "suites_loop (suites rep) ([], log LogReporting s)")
  from suites_loop_others[of "suites rep" "[]" "log LogReporting s"] sl
  obtain ws where p2: "posted s2 = posted s" and c2: "console s2 = console s @ [LogReporting] @ ws"
    by (auto simp: console_log)
  show ?thesis
  proof (cases "rs = []")
    case True
    then show ?thesis using ex p Parsed sl p2 by (simp add: reportResults_def Let_def)
  next
    case False
    let ?sub = "\<lparr>organization_id = et_organization_id exported, site_id = et_site_id exported,
                 started_at = st, finished_at = ft,
                 submission_status = (if c = 0 then StatusPassed else StatusFailed),
                 submission_results = rs\<rparr>"
    have "posted (reportResults post st ft c s) = posted s2 @ [?sub]"
      using ex Parsed sl False by (simp add: reportResults_def Let_def split: http_outcome.split)
    then have sub: "sub = ?sub" using p p2 by simp
    have "console (reportResults post st ft c s) =
          console s2 @ [LogCollected (length rs) (length (filter passed rs))
                         (length (filter (\<lambda>r. \<not> passed r) rs)), LogReportFailed]"
      using ex Parsed sl False f[unfolded sub]
      by (cases "post ?sub") (simp_all add: reportResults_def Let_def console_log)
    then show ?thesis using c2 by simp
  qed
qed

text \<open>
  C7. When the configuration is valid, the fetch returns, the workspace is created and at
  least one test is written, \<open>run\<close> returns the exit code of \<open>executeTests\<close>, whatever
  results file the engine leaves and whatever happens to the submission. A results file
  that cannot be read or parsed, and a submission whose POST does not succeed, end as the
  warning \<open>LogReportFailed\<close> on the console and as nothing else.
\<close>

theorem run_exit_code_is_engine_exit_code:
  assumes a: "validateConfig s = Returned ()"
    and b: "createTempDirectory (s\<lparr>exportedTests := Some exported\<rparr>) = (Returned (), s2)"
    and c: "writeTestFiles s2 (tests exported) = (Returned n, s3)"
    and d: "n \<noteq> 0"
    and e: "executeTests eng penv node_path (log (LogWroteCount n) s3)
              (getSecretsForPlaywright penv) = (exitCode, s5)"
  shows "fst (run (Inr exported) penv node_path eng post startTime finishTime s) = exitCode \<and>
         (results_json s5 = Unparsable \<longrightarrow>
            (\<exists>ws. console (snd (run (Inr exported) penv node_path eng post startTime finishTime s)) =
                    console s5 @ [LogReporting, LogReportFailed] @ ws)) \<and>
         (\<forall>sub. posted (snd (run (Inr exported) penv node_path eng post startTime finishTime s)) =
                   posted s5 @ [sub] \<and> post sub \<noteq> OkBody \<longrightarrow>
            (\<exists>ws ws'. console (snd (run (Inr exported) penv node_path eng post startTime finishTime s)) =
                    console s5 @ ws @ [LogReportFailed] @ ws'))"
proof -
  let ?run = "run (Inr exported) penv node_path eng post startTime finishTime s"
  let ?rep = "reportResults post startTime finishTime exitCode s5"
  have r: "?run = (exitCode, log (if exitCode = 0 then LogAllPassed else LogSomeFailed exitCode)
                      (cleanup ?rep))"
    using a b c d e by (simp add: run_def run_try_def Let_def)
  have ex2: "exportedTests s2 = Some exported" using createTempDirectory_others[OF b] by simp
  have ex3: "exportedTests s3 = Some exported"
    using loop_others[of s2 "tests exported" 0 "Returned n" s3] c ex2 by (simp add: writeTestFiles_def)
  have ex5: "exportedTests s5 = Some exported" using executeTests_others[OF e] ex3 by simp
  obtain wc where wc: "console (cleanup ?rep) = console ?rep @ wc" using cleanup_console by blast
  have con: "console (snd ?run) = console ?rep @ wc @ [if exitCode = 0 then LogAllPassed else LogSomeFailed exitCode]"
    using r wc by (simp add: console_log)
  have pos: "posted (snd ?run) = posted ?rep" using r by simp
  have one: "fst ?run = exitCode" using r by simp
  have two: "\<exists>ws. console (snd ?run) = console s5 @ [LogReporting, LogReportFailed] @ ws"
    if "results_json s5 = Unparsable"
    using reportResults_unparsable[OF ex5 that, of post startTime finishTime exitCode] con
    by (simp add: console_log)
  have three: "\<exists>ws ws'. console (snd ?run) = console s5 @ ws @ [LogReportFailed] @ ws'"
    if "posted (snd ?run) = posted s5 @ [sub] \<and> post sub \<noteq> OkBody" for sub
  proof -
    from that pos have "posted ?rep = posted s5 @ [sub]" "post sub \<noteq> OkBody" by simp_all
    from reportResults_failed_post[OF ex5 this] obtain ws where
      "console ?rep = console s5 @ ws @ [LogReportFailed]" by blast
    then have "console (snd ?run) = console s5 @ ws @ [LogReportFailed] @
                 (wc @ [if exitCode = 0 then LogAllPassed else LogSomeFailed exitCode])"
      using con by simp
    then show ?thesis by blast
  qed
  show ?thesis using one two three by blast
qed

theorem run_exit_code_is_engine_exit_code_witness:
  "fst (run (Inr ex_exported) ex_penv ex_node_path ex_engine ex_post ''t0'' ''t1'' ex_runner) = 3 \<and>
   LogReportFailed \<in> set (console (snd
     (run (Inr ex_exported) ex_penv ex_node_path ex_engine ex_post ''t0'' ''t1'' ex_runner))) \<and>
   fst (run (Inr ex_exported) ex_penv ex_node_path ex_engine_unparsable ex_post ''t0'' ''t1'' ex_runner) = 3 \<and>
   LogReportFailed \<in> set (console (snd
     (run (Inr ex_exported) ex_penv ex_node_path ex_engine_unparsable ex_post ''t0'' ''t1'' ex_runner)))"
proof -
  let ?s2 = "snd (createTempDirectory (ex_runner\<lparr>exportedTests := Some ex_exported\<rparr>))"
  let ?s3 = "snd (writeTestFiles ?s2 (tests ex_exported))"
  let ?s5 = "snd (executeTests ex_engine ex_penv ex_node_path (log (LogWroteCount 1) ?s3)
                   (getSecretsForPlaywright ex_penv))"
  let ?s5u = "snd (executeTests ex_engine_unparsable ex_penv ex_node_path (log (LogWroteCount 1) ?s3)
                   (getSecretsForPlaywright ex_penv))"
  let ?run = "run (Inr ex_exported) ex_penv ex_node_path ex_engine ex_post ''t0'' ''t1'' ex_runner"
  let ?runu = "run (Inr ex_exported) ex_penv ex_node_path ex_engine_unparsable ex_post ''t0'' ''t1'' ex_runner"
  have a: "validateConfig ex_runner = Returned ()" by code_simp
  have b: "createTempDirectory (ex_runner\<lparr>exportedTests := Some ex_exported\<rparr>) = (Returned (), ?s2)"
    by (rule pair_from_fst) code_simp
  have c: "writeTestFiles ?s2 (tests ex_exported) = (Returned 1, ?s3)"
    by (rule pair_from_fst) code_simp
  have d: "(1::nat) \<noteq> 0" by simp
  have e: "executeTests ex_engine ex_penv ex_node_path (log (LogWroteCount 1) ?s3)
             (getSecretsForPlaywright ex_penv) = (3, ?s5)"
    by (rule pair_from_fst) (simp add: executeTests_def ex_engine_def Let_def)
  have eu: "executeTests ex_engine_unparsable ex_penv ex_node_path (log (LogWroteCount 1) ?s3)
             (getSecretsForPlaywright ex_penv) = (3, ?s5u)"
    by (rule pair_from_fst) (simp add: executeTests_def ex_engine_unparsable_def Let_def)
  have u: "results_json ?s5u = Unparsable"
    by (simp add: executeTests_def ex_engine_unparsable_def Let_def)
  have p: "posted (snd ?run) = posted ?s5 @ [last (posted (snd ?run))]" by code_simp
  have f: "ex_post (last (posted (snd ?run))) \<noteq> OkBody" by (simp add: ex_post_def)
  from run_exit_code_is_engine_exit_code[OF a b c d e, of ex_post "''t0''" "''t1''"]
  have k: "fst ?run = 3" and
    h: "\<forall>sub. posted (snd ?run) = posted ?s5 @ [sub] \<and> ex_post sub \<noteq> OkBody \<longrightarrow>
         (\<exists>ws ws'. console (snd ?run) = console ?s5 @ ws @ [LogReportFailed] @ ws')"
    by blast+
  from h p f obtain ws ws' where "console (snd ?run) = console ?s5 @ ws @ [LogReportFailed] @ ws'"
    by blast
  then have "LogReportFailed \<in> set (console (snd ?run))" by simp
  with k have one: "fst ?run = 3 \<and> LogReportFailed \<in> set (console (snd ?run))" by simp
  from run_exit_code_is_engine_exit_code[OF a b c d eu, of ex_post "''t0''" "''t1''"]
  have ku: "fst ?runu = 3" and
    hu: "results_json ?s5u = Unparsable \<longrightarrow>
         (\<exists>ws. console (snd ?runu) = console ?s5u @ [LogReporting, LogReportFailed] @ ws)"
    by blast+
  from hu u obtain ws where "console (snd ?runu) = console ?s5u @ [LogReporting, LogReportFailed] @ ws"
    by blast
  then have "LogReportFailed \<in> set (console (snd ?runu))" by simp
  with ku have two: "fst ?runu = 3 \<and> LogReportFailed \<in> set (console (snd ?runu))" by simp
  show ?thesis using one two by simp
qed

end
